theory Spec2Isabelle
  imports Complex_Main
begin

section \<open>The keyword spotter of keyword-spot.h\<close>

text \<open>
  The decoder of \<^verbatim>\<open>app/src/main/jni/kws/keyword-spot.h\<close>: a token-passing
  search over a transducer, one \<^verbatim>\<open>Token\<close> per state in two buffers.

  \<^bold>\<open>Numbers.\<close> The C++ \<^verbatim>\<open>float\<close> is a type variable \<open>'f\<close> of the
  syntactic classes \<open>zero\<close>, \<open>plus\<close>, \<open>times\<close>, \<open>inverse\<close> and \<open>ord\<close>:
  these classes fix the notation \<open>0\<close>, \<open>+\<close>, \<open>*\<close>, \<open>/\<close>, \<open><\<close> and assume no law,
  so nothing proved below relies on exact arithmetic, on associativity, or on \<open><\<close>
  being total (an IEEE comparison with a NaN is false both ways). The functions
  \<^verbatim>\<open>logf\<close>, \<^verbatim>\<open>expf\<close>, the conversion from \<^verbatim>\<open>int\<close> and the literal
  \<^verbatim>\<open>0.5\<close> are the fields of a record \<open>float_ops\<close> that every operation takes.
  The concrete runs further down take \<open>'f = real\<close> with \<open>ln\<close> and \<open>exp\<close>.

  The C++ \<^verbatim>\<open>int\<close> and \<^verbatim>\<open>int32_t\<close> are \<open>int\<close>; an increment past
  \<open>INT_MAX\<close>, which C++ leaves undefined, is the error \<open>SignedOverflow\<close>.
  A read or write outside a vector or outside the score array, undefined as well,
  is the error \<open>OutOfBounds\<close>.
\<close>

text \<open>
  Modelled from the spec: the macros \<^verbatim>\<open>CHECK\<close> and \<^verbatim>\<open>LOG\<close> of \<^verbatim>\<open>utils.h\<close>,
  which is not among the sources. The spec calls \<^verbatim>\<open>CHECK\<close> a fatal assertion, so
  a failed \<^verbatim>\<open>CHECK\<close> ends the call with the error \<open>CheckFailed\<close> and leaves no
  state behind; \<^verbatim>\<open>LOG\<close> prints and changes nothing.
\<close>

datatype error = CheckFailed | OutOfBounds | SignedOverflow

definition INT_MAX :: int where
  "INT_MAX = 2147483647"

record 'f float_ops =
  logf :: "'f \<Rightarrow> 'f"
  expf :: "'f \<Rightarrow> 'f"
  float_of_int :: "int \<Rightarrow> 'f"
  float_half :: "'f"

text \<open>\<^verbatim>\<open>std::max(a, b)\<close> is \<^verbatim>\<open>(a < b) ? b : a\<close>.\<close>

definition std_max :: "'f::ord \<Rightarrow> 'f \<Rightarrow> 'f" where
  "std_max a b = (if a < b then b else a)"

subsection \<open>Token\<close>

record 'f Token =
  active :: bool
  is_filler :: bool
  score :: "'f"
  num_keyword_frames :: int
  average_keyword_score :: "'f"
  keyword :: int
  num_frames_of_current_state :: int
  num_keyword_states :: int
  max_score_of_current_state :: "'f"
  average_max_keyword_score :: "'f"
  average_max_keyword_score_before :: "'f"

text \<open>The constructor \<^verbatim>\<open>Token()\<close>.\<close>

definition Token_new :: "'f::zero Token" where
  "Token_new =
     \<lparr>active = False, is_filler = True, score = 0,
      num_keyword_frames = 0, average_keyword_score = 0,
      keyword = 0, num_frames_of_current_state = 0,
      num_keyword_states = 0, max_score_of_current_state = 0,
      average_max_keyword_score = 0, average_max_keyword_score_before = 0\<rparr>"

text \<open>\<^verbatim>\<open>Token::Reset\<close> assigns every field.\<close>

definition Token_Reset :: "'f::zero Token \<Rightarrow> 'f Token" where
  "Token_Reset tok =
     tok\<lparr>active := False, is_filler := True, score := 0,
         num_keyword_frames := 0, average_keyword_score := 0,
         keyword := 0, num_frames_of_current_state := 0,
         num_keyword_states := 0, max_score_of_current_state := 0,
         average_max_keyword_score := 0, average_max_keyword_score_before := 0\<rparr>"

text \<open>
  \<^verbatim>\<open>Token::Update\<close>, lines 180 to 214. \<open>self\<close> is \<^verbatim>\<open>*this\<close>, a token of
  \<^verbatim>\<open>cur_tokens_\<close>; \<open>prev\<close> is a token of \<^verbatim>\<open>prev_tokens_\<close>, a different
  vector, so the two never alias. The parameters \<^verbatim>\<open>olabel\<close> and
  \<^verbatim>\<open>is_filler\<close> carry a prime here, the plain names being the field selectors.
  The statistics of a winning keyword update, lines 187 to 209, are
  \<open>Update_keyword\<close>; in an integer expression mixed with a float the integer is
  converted first (\<open>float_of_int\<close>).
\<close>

definition Update_keyword ::
  "'f::{zero,plus,times,inverse,ord} float_ops \<Rightarrow> 'f Token \<Rightarrow> 'f Token \<Rightarrow> int \<Rightarrow> bool \<Rightarrow> 'f
     \<Rightarrow> error + 'f Token" where
  "Update_keyword fp self prev olabel' is_self_arc am_score =
     (let t = num_keyword_frames prev in
      if t \<ge> INT_MAX then Inl SignedOverflow
      else
        let self = self\<lparr>
              average_keyword_score :=
                (am_score + average_keyword_score prev * float_of_int fp t)
                  / float_of_int fp (t + 1),
              num_keyword_frames := t + 1\<rparr>
        in
        if is_self_arc then
          if num_frames_of_current_state prev \<ge> INT_MAX then Inl SignedOverflow
          else
            let self = self\<lparr>
                  num_frames_of_current_state := num_frames_of_current_state prev + 1,
                  num_keyword_states := num_keyword_states prev,
                  max_score_of_current_state :=
                    std_max (max_score_of_current_state prev) am_score,
                  average_max_keyword_score_before :=
                    average_max_keyword_score_before prev\<rparr>
            in
            if \<not> (num_keyword_states self > 0) then Inl CheckFailed
            else
              let self = self\<lparr>
                    average_max_keyword_score :=
                      (max_score_of_current_state self
                        + average_max_keyword_score_before self
                            * float_of_int fp (num_keyword_states self - 1))
                      / float_of_int fp (num_keyword_states self)\<rparr>
              in Inr (if olabel' \<noteq> 0 then self\<lparr>keyword := olabel'\<rparr> else self)
        else
          if num_keyword_states prev \<ge> INT_MAX then Inl SignedOverflow
          else
            let self = self\<lparr>
                  num_frames_of_current_state := 1,
                  num_keyword_states := num_keyword_states prev + 1,
                  max_score_of_current_state := am_score,
                  average_max_keyword_score_before := average_max_keyword_score prev\<rparr>;
                self = self\<lparr>
                  average_max_keyword_score :=
                    (max_score_of_current_state self
                      + average_max_keyword_score_before self
                          * float_of_int fp (num_keyword_states self - 1))
                    / float_of_int fp (num_keyword_states self)\<rparr>
            in Inr (if olabel' \<noteq> 0 then self\<lparr>keyword := olabel'\<rparr> else self))"

definition Update ::
  "'f::{zero,plus,times,inverse,ord} float_ops \<Rightarrow> 'f Token \<Rightarrow> 'f Token \<Rightarrow> int \<Rightarrow> bool \<Rightarrow> bool
     \<Rightarrow> 'f \<Rightarrow> error + 'f Token" where
  "Update fp self prev olabel' is_self_arc is_filler' am_score =
     (if \<not> active self \<or> (active self \<and> score self < score prev + am_score) then
        let self = self\<lparr>score := score prev + am_score\<rparr> in
        if \<not> is_filler' then
          case Update_keyword fp self prev olabel' is_self_arc am_score of
            Inl e \<Rightarrow> Inl e
          | Inr self \<Rightarrow> Inr (self\<lparr>active := True, is_filler := is_filler'\<rparr>)
        else Inr (self\<lparr>active := True, is_filler := is_filler'\<rparr>)
      else Inr (self\<lparr>active := True, is_filler := is_filler'\<rparr>))"

subsection \<open>The transducer, the filler table and the decoder\<close>

text \<open>
  Modelled from the spec: \<^verbatim>\<open>fst.h\<close> (the types \<^verbatim>\<open>Arc\<close>, \<^verbatim>\<open>Fst\<close> and
  \<^verbatim>\<open>SymbolTable\<close>) is not among the sources. The spec's transducer contract is
  a state count, the sequence of arcs leaving a state, each with an input label, an
  output label and a next state, and final-state membership; the filler set is a
  membership test on phone identifiers. \<open>ArcsOf fst' i\<close> lists the arcs from
  \<^verbatim>\<open>ArcStart(i)\<close> up to \<^verbatim>\<open>ArcEnd(i)\<close> in that order.
\<close>

record Arc =
  ilabel :: int
  olabel :: int
  next_state :: int

record Fst =
  NumStates :: nat
  ArcsOf :: "nat \<Rightarrow> Arc list"
  IsFinal :: "nat \<Rightarrow> bool"

type_synonym SymbolTable = "int \<Rightarrow> bool"

definition kMaxTokenPassingFrames :: int where
  "kMaxTokenPassingFrames = 100 * 60 * 10"

text \<open>
  The members of the class. Isabelle refuses a name that ends in an underscore, so
  \<^verbatim>\<open>num_frames_\<close> is \<open>num_frames\<close> and so on, and \<^verbatim>\<open>fst_\<close> is \<open>the_fst\<close>
  (\<open>fst\<close> being the first projection of a pair); a parameter \<^verbatim>\<open>fst\<close> is \<open>fst'\<close>.
\<close>

record 'f KeywordSpot =
  the_fst :: Fst
  filler_table :: SymbolTable
  num_frames :: int
  prev_tokens :: "'f Token list"
  cur_tokens :: "'f Token list"
  spot_threshold :: "'f"
  min_keyword_frames :: int
  min_frames_for_last_state :: int

definition SetSpotThreshold :: "'f KeywordSpot \<Rightarrow> 'f \<Rightarrow> 'f KeywordSpot" where
  "SetSpotThreshold ks threshold = ks\<lparr>spot_threshold := threshold\<rparr>"

definition SetMinKeywordFrames :: "'f KeywordSpot \<Rightarrow> int \<Rightarrow> 'f KeywordSpot" where
  "SetMinKeywordFrames ks frames = ks\<lparr>min_keyword_frames := frames\<rparr>"

definition SetMinFramesForLastState :: "'f KeywordSpot \<Rightarrow> int \<Rightarrow> 'f KeywordSpot" where
  "SetMinFramesForLastState ks frames = ks\<lparr>min_frames_for_last_state := frames\<rparr>"

text \<open>
  \<^verbatim>\<open>KeywordSpot::Reset\<close>, lines 57 to 66. Writing \<^verbatim>\<open>prev_tokens_[0]\<close> of an
  empty vector is out of bounds.
\<close>

definition Reset :: "'f::zero KeywordSpot \<Rightarrow> error + 'f KeywordSpot" where
  "Reset ks =
     (let ks = ks\<lparr>prev_tokens := map Token_Reset (prev_tokens ks)\<rparr>;
          ks = ks\<lparr>cur_tokens := map Token_Reset (cur_tokens ks)\<rparr>
      in
      if prev_tokens ks = [] then Inl OutOfBounds
      else
        Inr (ks\<lparr>prev_tokens := (prev_tokens ks)[0 := (prev_tokens ks ! 0)\<lparr>active := True\<rparr>],
                 num_frames := 0\<rparr>))"

text \<open>The constructor, lines 33 to 43: both vectors get \<^verbatim>\<open>NumStates()\<close> copies
  of \<^verbatim>\<open>Token()\<close>, then \<^verbatim>\<open>Reset()\<close> runs.\<close>

definition KeywordSpot_new ::
  "'f::zero float_ops \<Rightarrow> Fst \<Rightarrow> SymbolTable \<Rightarrow> error + 'f KeywordSpot" where
  "KeywordSpot_new fp fst' filler_table' =
     Reset \<lparr>the_fst = fst', filler_table = filler_table', num_frames = 0,
            prev_tokens = replicate (NumStates fst') Token_new,
            cur_tokens = replicate (NumStates fst') Token_new,
            spot_threshold = float_half fp,
            min_keyword_frames = 0,
            min_frames_for_last_state = 5\<rparr>"

definition IsFillerPhone :: "'f KeywordSpot \<Rightarrow> int \<Rightarrow> bool" where
  "IsFillerPhone ks phone = filler_table ks phone"

subsection \<open>Spot: propagation\<close>

text \<open>
  The body of the inner loop, lines 87 to 95, for the arc \<open>arc\<close> leaving state \<open>i\<close>;
  \<open>cur\<close> is \<^verbatim>\<open>cur_tokens_\<close> as the loop has left it so far. \<open>am_score\<close> is the
  array behind the pointer and \<open>num\<close> the length the caller passes with it.
\<close>

definition arc_update ::
  "'f::{zero,plus,times,inverse,ord} float_ops \<Rightarrow> 'f KeywordSpot \<Rightarrow> 'f list \<Rightarrow> int \<Rightarrow> nat
     \<Rightarrow> 'f Token list \<Rightarrow> Arc \<Rightarrow> error + 'f Token list" where
  "arc_update fp ks am_score num i cur arc =
     (if \<not> (next_state arc \<ge> 0) then Inl CheckFailed
      else if \<not> (next_state arc < int (length cur)) then Inl CheckFailed
      else if \<not> (ilabel arc \<le> num) then Inl CheckFailed
      else if ilabel arc - 1 < 0 \<or> int (length am_score) \<le> ilabel arc - 1 then Inl OutOfBounds
      else
        let score' = logf fp (am_score ! nat (ilabel arc - 1));
            is_filler' = IsFillerPhone ks (ilabel arc);
            is_self_arc = (int i = next_state arc);
            olabel' = olabel arc
        in
        case Update fp (cur ! nat (next_state arc)) (prev_tokens ks ! i) olabel'
               is_self_arc is_filler' score' of
          Inl e \<Rightarrow> Inl e
        | Inr tok \<Rightarrow> Inr (cur[nat (next_state arc) := tok]))"

fun arcs_loop ::
  "'f::{zero,plus,times,inverse,ord} float_ops \<Rightarrow> 'f KeywordSpot \<Rightarrow> 'f list \<Rightarrow> int \<Rightarrow> nat
     \<Rightarrow> Arc list \<Rightarrow> 'f Token list \<Rightarrow> error + 'f Token list" where
  "arcs_loop fp ks am_score num i [] cur = Inr cur"
| "arcs_loop fp ks am_score num i (arc # arcs) cur =
     (case arc_update fp ks am_score num i cur arc of
        Inl e \<Rightarrow> Inl e
      | Inr cur' \<Rightarrow> arcs_loop fp ks am_score num i arcs cur')"

text \<open>The outer loop, lines 84 to 98, over the states \<open>is\<close> still to visit.\<close>

fun states_loop ::
  "'f::{zero,plus,times,inverse,ord} float_ops \<Rightarrow> 'f KeywordSpot \<Rightarrow> 'f list \<Rightarrow> int
     \<Rightarrow> nat list \<Rightarrow> 'f Token list \<Rightarrow> error + 'f Token list" where
  "states_loop fp ks am_score num [] cur = Inr cur"
| "states_loop fp ks am_score num (i # is) cur =
     (if active (prev_tokens ks ! i) then
        case arcs_loop fp ks am_score num i (ArcsOf (the_fst ks) i) cur of
          Inl e \<Rightarrow> Inl e
        | Inr cur' \<Rightarrow> states_loop fp ks am_score num is cur'
      else states_loop fp ks am_score num is cur)"

definition propagate ::
  "'f::{zero,plus,times,inverse,ord} float_ops \<Rightarrow> 'f KeywordSpot \<Rightarrow> 'f list \<Rightarrow> int
     \<Rightarrow> error + 'f Token list" where
  "propagate fp ks am_score num =
     states_loop fp ks am_score num [0..<length (prev_tokens ks)] (cur_tokens ks)"

subsection \<open>Spot: selection\<close>

text \<open>The five locals of lines 101 to 103.\<close>

record 'f best =
  best_state :: nat
  best_final_state :: nat
  best_score :: "'f"
  best_final_score :: "'f"
  reach_final :: bool

text \<open>The body of the loop of lines 104 to 119, at state \<open>i\<close>.\<close>

definition best_step :: "Fst \<Rightarrow> 'f::ord Token list \<Rightarrow> nat \<Rightarrow> 'f best \<Rightarrow> 'f best" where
  "best_step fst' cur i b =
     (let b = (if active (cur ! i) \<and> best_score b < score (cur ! i)
               then b\<lparr>best_score := score (cur ! i), best_state := i\<rparr>
               else b)
      in
      if active (cur ! i) \<and> IsFinal fst' i then
        if \<not> reach_final b then
          b\<lparr>best_final_score := score (cur ! i), best_final_state := i, reach_final := True\<rparr>
        else if best_final_score b < score (cur ! i) then
          b\<lparr>best_final_score := score (cur ! i), best_final_state := i\<rparr>
        else b
      else b)"

fun best_loop :: "Fst \<Rightarrow> 'f::ord Token list \<Rightarrow> nat list \<Rightarrow> 'f best \<Rightarrow> 'f best" where
  "best_loop fst' cur [] b = b"
| "best_loop fst' cur (i # is) b = best_loop fst' cur is (best_step fst' cur i b)"

text \<open>Lines 100 to 119. Reading \<^verbatim>\<open>cur_tokens_[0]\<close> of an empty vector is out of
  bounds.\<close>

definition find_best :: "Fst \<Rightarrow> 'f::{zero,ord} Token list \<Rightarrow> error + 'f best" where
  "find_best fst' cur =
     (if cur = [] then Inl OutOfBounds
      else
        Inr (best_loop fst' cur [1..<length cur]
               \<lparr>best_state = 0, best_final_state = 0, best_score = score (cur ! 0),
                best_final_score = 0, reach_final = False\<rparr>))"

subsection \<open>Spot: decision, rotation and the overflow guard\<close>

text \<open>Lines 80 to 82 and 121 to 134: the triple (\<^verbatim>\<open>legal\<close>, \<^verbatim>\<open>*confidence\<close>,
  \<^verbatim>\<open>*keyword\<close>). The call to \<^verbatim>\<open>LOG\<close> of line 125 is left out.\<close>

definition decide ::
  "'f::{zero,ord} float_ops \<Rightarrow> 'f KeywordSpot \<Rightarrow> 'f Token list \<Rightarrow> 'f best \<Rightarrow> bool \<times> 'f \<times> int" where
  "decide fp ks cur b =
     (if reach_final b then
        let confidence = expf fp (average_max_keyword_score (cur ! best_final_state b));
            keyword' = keyword (cur ! best_final_state b)
        in
        if num_keyword_frames (cur ! best_final_state b) \<ge> min_keyword_frames ks \<and>
           num_frames_of_current_state (cur ! best_final_state b)
             \<ge> min_frames_for_last_state ks \<and>
           spot_threshold ks < confidence
        then (True, confidence, keyword')
        else (False, confidence, keyword')
      else (False, 0, 0))"

text \<open>Lines 145 to 147: the loop runs to \<^verbatim>\<open>cur_tokens_.size()\<close> and resets
  \<^verbatim>\<open>prev_tokens_[i]\<close>; \<open>n\<close> is that size.\<close>

definition reset_first :: "nat \<Rightarrow> 'f::zero Token list \<Rightarrow> error + 'f Token list" where
  "reset_first n toks =
     (if length toks < n then Inl OutOfBounds
      else Inr (map Token_Reset (take n toks) @ drop n toks))"

text \<open>\<^verbatim>\<open>KeywordSpot::Spot\<close>, lines 78 to 150.\<close>

definition Spot ::
  "'f::{zero,plus,times,inverse,ord} float_ops \<Rightarrow> 'f KeywordSpot \<Rightarrow> 'f list \<Rightarrow> int
     \<Rightarrow> error + ('f KeywordSpot \<times> bool \<times> 'f \<times> int)" where
  "Spot fp ks am_score num =
     (case propagate fp ks am_score num of
        Inl e \<Rightarrow> Inl e
      | Inr cur \<Rightarrow>
          (case find_best (the_fst ks) cur of
             Inl e \<Rightarrow> Inl e
           | Inr b \<Rightarrow>
               let out = decide fp ks cur b;
                   ks = ks\<lparr>prev_tokens := cur, cur_tokens := prev_tokens ks\<rparr>;
                   ks = ks\<lparr>cur_tokens := map Token_Reset (cur_tokens ks)\<rparr>
               in
               if num_frames ks \<ge> INT_MAX then Inl SignedOverflow
               else
                 let ks = ks\<lparr>num_frames := num_frames ks + 1\<rparr> in
                 if num_frames ks > kMaxTokenPassingFrames \<and>
                    is_filler (prev_tokens ks ! best_state b)
                 then
                   case reset_first (length (cur_tokens ks)) (prev_tokens ks) of
                     Inl e \<Rightarrow> Inl e
                   | Inr toks \<Rightarrow> Inr (ks\<lparr>prev_tokens := toks\<rparr>, out)
                 else Inr (ks, out)))"

text \<open>A sequence of calls, each on the state the one before left; it stops at the
  first call that fails and gives the outputs up to there.\<close>

fun Spot_all ::
  "'f::{zero,plus,times,inverse,ord} float_ops \<Rightarrow> 'f KeywordSpot \<Rightarrow> ('f list \<times> int) list
     \<Rightarrow> (error + bool \<times> 'f \<times> int) list" where
  "Spot_all fp ks [] = []"
| "Spot_all fp ks ((am_score, num) # frames) =
     (case Spot fp ks am_score num of
        Inl e \<Rightarrow> [Inl e]
      | Inr (ks', out) \<Rightarrow> Inr out # Spot_all fp ks' frames)"

text \<open>The fields the source groups as keyword statistics: all but
  \<open>active\<close>, \<open>is_filler\<close> and \<open>score\<close>.\<close>

definition same_keyword_stats :: "'f Token \<Rightarrow> 'f Token \<Rightarrow> bool" where
  "same_keyword_stats a b \<longleftrightarrow>
     num_keyword_frames a = num_keyword_frames b \<and>
     average_keyword_score a = average_keyword_score b \<and>
     keyword a = keyword b \<and>
     num_frames_of_current_state a = num_frames_of_current_state b \<and>
     num_keyword_states a = num_keyword_states b \<and>
     max_score_of_current_state a = max_score_of_current_state b \<and>
     average_max_keyword_score a = average_max_keyword_score b \<and>
     average_max_keyword_score_before a = average_max_keyword_score_before b"

text \<open>
  When \<^verbatim>\<open>Token::Update\<close> returns. A call that loses the competition, or that
  wins it over a filler arc, always does. A call that wins over a keyword arc
  increments \<open>prev.num_keyword_frames\<close> and, on a self-arc,
  \<open>prev.num_frames_of_current_state\<close>, and then passes the \<^verbatim>\<open>CHECK\<close> of line
  198 only with \<open>prev.num_keyword_states > 0\<close>; off a self-arc it increments
  \<open>prev.num_keyword_states\<close>. It returns when none of these counters stands at
  \<open>INT_MAX\<close> and the \<^verbatim>\<open>CHECK\<close> holds.
\<close>

definition Update_returns :: "'f::{plus,ord} Token \<Rightarrow> 'f Token \<Rightarrow> bool \<Rightarrow> bool \<Rightarrow> 'f \<Rightarrow> bool" where
  "Update_returns self prev is_self_arc is_filler' am_score \<longleftrightarrow>
     (if \<not> active self \<or> score self < score prev + am_score then
        if \<not> is_filler' then
          num_keyword_frames prev < INT_MAX \<and>
          (if is_self_arc
           then num_frames_of_current_state prev < INT_MAX \<and> 0 < num_keyword_states prev
           else num_keyword_states prev < INT_MAX)
        else True
      else True)"

subsection \<open>The states a decoder can be in\<close>

text \<open>
  A decoder comes from the constructor and is then changed by \<^verbatim>\<open>Reset\<close>, by
  \<^verbatim>\<open>Spot\<close> and by the three setters only; a call that failed has ended the
  program, so only calls that returned lead on. \<open>buffers_ok\<close> is what such a
  decoder keeps: both vectors as long as the transducer has states, at least one
  state, and no negative \<open>num_keyword_states\<close>.
\<close>

inductive reachable ::
  "'f::{zero,plus,times,inverse,ord} float_ops \<Rightarrow> 'f KeywordSpot \<Rightarrow> bool"
  for fp :: "'f float_ops" where
  constructed: "KeywordSpot_new fp fst' filler_table' = Inr ks \<Longrightarrow> reachable fp ks"
| after_Reset: "reachable fp ks \<Longrightarrow> Reset ks = Inr ks' \<Longrightarrow> reachable fp ks'"
| after_Spot: "reachable fp ks \<Longrightarrow> Spot fp ks am_score num = Inr (ks', out) \<Longrightarrow> reachable fp ks'"
| after_SetSpotThreshold: "reachable fp ks \<Longrightarrow> reachable fp (SetSpotThreshold ks threshold)"
| after_SetMinKeywordFrames: "reachable fp ks \<Longrightarrow> reachable fp (SetMinKeywordFrames ks frames)"
| after_SetMinFramesForLastState:
    "reachable fp ks \<Longrightarrow> reachable fp (SetMinFramesForLastState ks frames)"

definition tokens_ok :: "'f Token list \<Rightarrow> bool" where
  "tokens_ok toks \<longleftrightarrow> (\<forall>tok \<in> set toks. 0 \<le> num_keyword_states tok)"

definition buffers_ok :: "'f KeywordSpot \<Rightarrow> bool" where
  "buffers_ok ks \<longleftrightarrow>
     prev_tokens ks \<noteq> [] \<and>
     length (prev_tokens ks) = NumStates (the_fst ks) \<and>
     length (cur_tokens ks) = NumStates (the_fst ks) \<and>
     tokens_ok (prev_tokens ks) \<and> tokens_ok (cur_tokens ks)"

subsection \<open>What the selection loop keeps\<close>

text \<open>
  Two invariants of the loop of lines 104 to 119, \<open>S\<close> being the states it has
  visited. \<open>final_inv\<close>: \<^verbatim>\<open>reach_final\<close> says whether a visited state is active
  and final, and then \<^verbatim>\<open>best_final_state\<close> is such a state that no other such
  state beats. \<open>best_inv\<close>: \<^verbatim>\<open>best_state\<close> is state 0 or a visited active state,
  \<^verbatim>\<open>best_score\<close> is its score, and neither state 0 nor a visited active state
  beats it.
\<close>

definition final_inv :: "Fst \<Rightarrow> 'f::ord Token list \<Rightarrow> nat set \<Rightarrow> 'f best \<Rightarrow> bool" where
  "final_inv fst' cur S b \<longleftrightarrow>
     (reach_final b \<longleftrightarrow> (\<exists>i \<in> S. active (cur ! i) \<and> IsFinal fst' i)) \<and>
     (reach_final b \<longrightarrow>
        best_final_state b \<in> S \<and>
        active (cur ! best_final_state b) \<and> IsFinal fst' (best_final_state b) \<and>
        best_final_score b = score (cur ! best_final_state b) \<and>
        (\<forall>i \<in> S. active (cur ! i) \<and> IsFinal fst' i
            \<longrightarrow> \<not> score (cur ! best_final_state b) < score (cur ! i)))"

definition best_inv :: "'f::ord Token list \<Rightarrow> nat set \<Rightarrow> 'f best \<Rightarrow> bool" where
  "best_inv cur S b \<longleftrightarrow>
     (best_state b = 0 \<or> best_state b \<in> S \<and> active (cur ! best_state b)) \<and>
     best_score b = score (cur ! best_state b) \<and>
     \<not> score (cur ! best_state b) < score (cur ! 0) \<and>
     (\<forall>i \<in> S. active (cur ! i) \<longrightarrow> \<not> score (cur ! best_state b) < score (cur ! i))"

subsection \<open>The overflow guard as the spec words it\<close>

text \<open>
  What the spec says of step 5 of a call that took \<open>ks\<close> to \<open>ks'\<close>, with the ceiling
  as the parameter \<open>limit\<close>. The frame counter has gone up by one. And whenever the
  state that the selection step reports as best is active after propagation, that
  state is a globally best-scoring active state (no active state has a greater
  score), and the buffer that is now the previous one is the propagated buffer
  with every token reset (state 0 as well, so nothing is active) if the counter
  exceeds \<open>limit\<close> and that state is filler-classified, and the propagated buffer
  as it is otherwise. Nothing is said of a call whose selection step reports a
  state that is not active.
\<close>

definition overflow_guard ::
  "int \<Rightarrow> 'f::{zero,plus,times,inverse,ord} float_ops \<Rightarrow> 'f KeywordSpot \<Rightarrow> 'f list \<Rightarrow> int
     \<Rightarrow> 'f KeywordSpot \<Rightarrow> bool" where
  "overflow_guard limit fp ks am_score num ks' \<longleftrightarrow>
     (case propagate fp ks am_score num of
        Inl e \<Rightarrow> False
      | Inr cur \<Rightarrow>
          (case find_best (the_fst ks) cur of
             Inl e \<Rightarrow> False
           | Inr b \<Rightarrow>
               num_frames ks' = num_frames ks + 1 \<and>
               (active (cur ! best_state b) \<longrightarrow>
                  best_state b < length cur \<and>
                  (\<forall>i. i < length cur \<and> active (cur ! i)
                       \<longrightarrow> \<not> score (cur ! best_state b) < score (cur ! i)) \<and>
                  prev_tokens ks' =
                    (if limit < num_frames ks' \<and> is_filler (cur ! best_state b)
                     then replicate (length cur) Token_new
                     else cur))))"

subsection \<open>Concrete inputs\<close>

text \<open>The runs below compute with real numbers, \<open>ln\<close> and \<open>exp\<close>.\<close>

definition real_ops :: "real float_ops" where
  "real_ops = \<lparr>logf = ln, expf = exp, float_of_int = of_int, float_half = 1 / 2\<rparr>"

text \<open>A token of the previous frame two frames into a keyword, and a token of the
  current frame that another arc has reached already with the total score \<open>-3\<close>.\<close>

definition demo_prev :: "real Token" where
  "demo_prev =
     \<lparr>active = True, is_filler = False, score = - 2,
      num_keyword_frames = 2, average_keyword_score = - 1,
      keyword = 0, num_frames_of_current_state = 2,
      num_keyword_states = 1, max_score_of_current_state = - 1,
      average_max_keyword_score = - 1, average_max_keyword_score_before = 0\<rparr>"

definition demo_self :: "real Token" where
  "demo_self =
     \<lparr>active = True, is_filler = False, score = - 3,
      num_keyword_frames = 1, average_keyword_score = - 3,
      keyword = 4, num_frames_of_current_state = 1,
      num_keyword_states = 1, max_score_of_current_state = - 3,
      average_max_keyword_score = - 3, average_max_keyword_score_before = 0\<rparr>"

text \<open>What the keyword self-arc from \<open>demo_prev\<close> with the frame score \<open>-1\<close> and the
  output label 7 leaves in a destination that was not active yet.\<close>

definition demo_first :: "real Token" where
  "demo_first =
     \<lparr>active = True, is_filler = False, score = - 3,
      num_keyword_frames = 3, average_keyword_score = - 1,
      keyword = 7, num_frames_of_current_state = 3,
      num_keyword_states = 1, max_score_of_current_state = - 1,
      average_max_keyword_score = - 1, average_max_keyword_score_before = 0\<rparr>"

text \<open>
  A transducer with the start state alone and a filler self-loop on phone 1, and
  the decoder on it after \<open>k\<close> frames that all gave phone 1 the score 1.
\<close>

definition fst_loop :: Fst where
  "fst_loop =
     \<lparr>NumStates = 1,
      ArcsOf = (\<lambda>i. if i = 0 then [\<lparr>ilabel = 1, olabel = 0, next_state = 0\<rparr>] else []),
      IsFinal = (\<lambda>i. False)\<rparr>"

definition filler_demo :: SymbolTable where
  "filler_demo phone \<longleftrightarrow> phone = 1"

definition loop_ks :: "nat \<Rightarrow> real KeywordSpot" where
  "loop_ks k =
     \<lparr>the_fst = fst_loop, filler_table = filler_demo, num_frames = int k,
      prev_tokens = [Token_new\<lparr>active := True\<rparr>],
      cur_tokens = [Token_new],
      spot_threshold = 1 / 2, min_keyword_frames = 0, min_frames_for_last_state = 5\<rparr>"

text \<open>
  The transducer of the spec's legality example, with the self-loop on the final
  state: state 0 loops on the filler phone 1 and goes to state 1 on phone 2, state
  1 loops on phone 2 and goes to the final state 2 on phone 3 with the keyword 7,
  state 2 loops on phone 3. A frame gives one phone the score 1 and the others
  \<open>exp (-5)\<close>. \<open>demo_ks\<close> is the decoder the constructor builds on it, \<open>demo_ks1\<close>
  the decoder after one frame of phone 2.
\<close>

definition fst_demo :: Fst where
  "fst_demo =
     \<lparr>NumStates = 3,
      ArcsOf = (\<lambda>i.
        if i = 0 then [\<lparr>ilabel = 1, olabel = 0, next_state = 0\<rparr>,
                       \<lparr>ilabel = 2, olabel = 0, next_state = 1\<rparr>]
        else if i = 1 then [\<lparr>ilabel = 2, olabel = 0, next_state = 1\<rparr>,
                            \<lparr>ilabel = 3, olabel = 7, next_state = 2\<rparr>]
        else if i = 2 then [\<lparr>ilabel = 3, olabel = 0, next_state = 2\<rparr>]
        else []),
      IsFinal = (\<lambda>i. i = 2)\<rparr>"

definition frame_phone2 :: "real list" where
  "frame_phone2 = [exp (- 5), 1, exp (- 5)]"

definition demo_ks :: "real KeywordSpot" where
  "demo_ks =
     \<lparr>the_fst = fst_demo, filler_table = filler_demo, num_frames = 0,
      prev_tokens = [Token_new\<lparr>active := True\<rparr>, Token_new, Token_new],
      cur_tokens = [Token_new, Token_new, Token_new],
      spot_threshold = 1 / 2, min_keyword_frames = 0, min_frames_for_last_state = 5\<rparr>"

definition demo_ks1 :: "real KeywordSpot" where
  "demo_ks1 =
     demo_ks\<lparr>num_frames := 1,
       prev_tokens :=
         [Token_new\<lparr>active := True, score := - 5\<rparr>,
          Token_new\<lparr>active := True, is_filler := False, num_keyword_frames := 1,
                    num_frames_of_current_state := 1, num_keyword_states := 1\<rparr>,
          Token_new]\<rparr>"

definition frame_phone3 :: "real list" where
  "frame_phone3 = [exp (- 5), exp (- 5), 1]"

text \<open>\<open>demo_cur2\<close> is the current-frame buffer of the example after a frame of phone 2
  and a frame of phone 3, and \<open>demo_ks2\<close> the decoder then, with a minimum of one
  frame in the last state.\<close>

definition demo_cur2 :: "real Token list" where
  "demo_cur2 =
     [Token_new\<lparr>active := True, score := - 10\<rparr>,
      \<lparr>active = True, is_filler = False, score = - 5,
       num_keyword_frames = 2, average_keyword_score = - (5 / 2),
       keyword = 0, num_frames_of_current_state = 2,
       num_keyword_states = 1, max_score_of_current_state = 0,
       average_max_keyword_score = 0, average_max_keyword_score_before = 0\<rparr>,
      \<lparr>active = True, is_filler = False, score = 0,
       num_keyword_frames = 2, average_keyword_score = 0,
       keyword = 7, num_frames_of_current_state = 1,
       num_keyword_states = 2, max_score_of_current_state = 0,
       average_max_keyword_score = 0, average_max_keyword_score_before = 0\<rparr>]"

definition demo_ks2 :: "real KeywordSpot" where
  "demo_ks2 = demo_ks\<lparr>num_frames := 2, prev_tokens := demo_cur2,
                       min_frames_for_last_state := 1\<rparr>"

text \<open>
  A transducer whose start state is also its final state: state 0 goes to state 1
  on phone 2, and state 1 goes back to state 0 on phone 3 with the keyword 7.
  \<open>ring_ks\<close> is the decoder the constructor builds on it, set to a minimum of one
  frame in the last state; \<open>ring_ks1\<close> and \<open>ring_ks2\<close> are the decoder after a
  frame of phone 2 and a further frame of phone 3.
\<close>

definition fst_ring :: Fst where
  "fst_ring =
     \<lparr>NumStates = 2,
      ArcsOf = (\<lambda>i.
        if i = 0 then [\<lparr>ilabel = 2, olabel = 0, next_state = 1\<rparr>]
        else if i = 1 then [\<lparr>ilabel = 3, olabel = 7, next_state = 0\<rparr>]
        else []),
      IsFinal = (\<lambda>i. i = 0)\<rparr>"

definition ring_ks :: "real KeywordSpot" where
  "ring_ks =
     \<lparr>the_fst = fst_ring, filler_table = filler_demo, num_frames = 0,
      prev_tokens = [Token_new\<lparr>active := True\<rparr>, Token_new],
      cur_tokens = [Token_new, Token_new],
      spot_threshold = 1 / 2, min_keyword_frames = 0, min_frames_for_last_state = 1\<rparr>"

definition ring_tok1 :: "real Token" where
  "ring_tok1 =
     \<lparr>active = True, is_filler = False, score = 0,
      num_keyword_frames = 1, average_keyword_score = 0,
      keyword = 0, num_frames_of_current_state = 1,
      num_keyword_states = 1, max_score_of_current_state = 0,
      average_max_keyword_score = 0, average_max_keyword_score_before = 0\<rparr>"

definition ring_tok1_low :: "real Token" where
  "ring_tok1_low =
     \<lparr>active = True, is_filler = False, score = - 5,
      num_keyword_frames = 1, average_keyword_score = - 5,
      keyword = 0, num_frames_of_current_state = 1,
      num_keyword_states = 1, max_score_of_current_state = - 5,
      average_max_keyword_score = - 5, average_max_keyword_score_before = 0\<rparr>"

definition ring_tok0 :: "real Token" where
  "ring_tok0 =
     \<lparr>active = True, is_filler = False, score = 0,
      num_keyword_frames = 2, average_keyword_score = 0,
      keyword = 7, num_frames_of_current_state = 1,
      num_keyword_states = 2, max_score_of_current_state = 0,
      average_max_keyword_score = 0, average_max_keyword_score_before = 0\<rparr>"

definition ring_ks1 :: "real KeywordSpot" where
  "ring_ks1 = ring_ks\<lparr>num_frames := 1, prev_tokens := [Token_new, ring_tok1]\<rparr>"

definition ring_ks2 :: "real KeywordSpot" where
  "ring_ks2 = ring_ks\<lparr>num_frames := 2, prev_tokens := [ring_tok0, Token_new]\<rparr>"

section \<open>Properties of Token::Update\<close>

lemma Update_lost:
  "active self \<Longrightarrow> \<not> score self < score prev + am_score \<Longrightarrow>
   Update fp self prev olabel' is_self_arc is_filler' am_score
     = Inr (self\<lparr>active := True, is_filler := is_filler'\<rparr>)"
  by (simp add: Update_def)

lemma Update_filler:
  "Update fp self prev olabel' is_self_arc True am_score =
     Inr (if \<not> active self \<or> score self < score prev + am_score
          then self\<lparr>score := score prev + am_score, active := True, is_filler := True\<rparr>
          else self\<lparr>active := True, is_filler := True\<rparr>)"
  by (simp add: Update_def Let_def)

lemma Update_returns_iff:
  "(\<exists>tok. Update fp self prev olabel' is_self_arc is_filler' am_score = Inr tok)
     \<longleftrightarrow> Update_returns self prev is_self_arc is_filler' am_score"
  by (auto simp: Update_def Update_keyword_def Update_returns_def Let_def
      split: if_splits sum.splits)

lemma Update_won_score:
  assumes "Update fp self prev olabel' is_self_arc is_filler' am_score = Inr tok"
    and "\<not> active self \<or> score self < score prev + am_score"
  shows "score tok = score prev + am_score"
  using assms
  by (auto simp: Update_def Update_keyword_def Let_def split: if_splits sum.splits)

lemma Update_result_flags:
  assumes "Update fp self prev olabel' is_self_arc is_filler' am_score = Inr tok"
  shows "active tok \<and> is_filler tok = is_filler'"
  using assms
  by (auto simp: Update_def Update_keyword_def Let_def split: if_splits sum.splits)

lemma Token_Reset_new: "Token_Reset tok = Token_new"
  by (simp add: Token_Reset_def Token_new_def)

text \<open>
  Claim C2. A call of \<^verbatim>\<open>Token::Update\<close> returns exactly when \<open>Update_returns\<close>
  holds, so in particular whenever it loses the competition, wins it over a filler
  arc, or wins it with counters below \<open>INT_MAX\<close> and the \<^verbatim>\<open>CHECK\<close> passing. The
  token it leaves has the score \<open>prev.score + am_score\<close> if the destination was not
  active yet or \<open>prev.score + am_score\<close> is strictly greater than its score; its
  score or keyword statistics differ from the destination's only in that case;
  and an update that ties with the score already there changes neither (the update
  that came first keeps its values). The tie needs \<open><\<close> to be irreflexive, hence the
  sort \<open>preorder\<close>.
\<close>

theorem Update_competition:
  fixes self prev :: "'f::{zero,plus,times,inverse,preorder} Token"
  shows "((\<exists>tok. Update fp self prev olabel' is_self_arc is_filler' am_score = Inr tok)
            \<longleftrightarrow> Update_returns self prev is_self_arc is_filler' am_score)
       \<and> (\<forall>tok. Update fp self prev olabel' is_self_arc is_filler' am_score = Inr tok \<longrightarrow>
            (\<not> active self \<or> score self < score prev + am_score
               \<longrightarrow> score tok = score prev + am_score)
          \<and> (score tok \<noteq> score self \<or> \<not> same_keyword_stats tok self
               \<longrightarrow> \<not> active self \<or> score self < score prev + am_score)
          \<and> (active self \<and> score self = score prev + am_score
               \<longrightarrow> score tok = score self \<and> same_keyword_stats tok self))"
proof -
  have body: "(\<not> active self \<or> score self < score prev + am_score
               \<longrightarrow> score tok = score prev + am_score)
          \<and> (score tok \<noteq> score self \<or> \<not> same_keyword_stats tok self
               \<longrightarrow> \<not> active self \<or> score self < score prev + am_score)
          \<and> (active self \<and> score self = score prev + am_score
               \<longrightarrow> score tok = score self \<and> same_keyword_stats tok self)"
    if run: "Update fp self prev olabel' is_self_arc is_filler' am_score = Inr tok" for tok
  proof (cases "\<not> active self \<or> score self < score prev + am_score")
    case True
    have "score tok = score prev + am_score"
      using run True by (rule Update_won_score)
    then show ?thesis using True by auto
  next
    case False
    then have "tok = self\<lparr>active := True, is_filler := is_filler'\<rparr>"
      using run Update_lost[of self prev am_score fp olabel' is_self_arc is_filler'] by simp
    then show ?thesis using False by (simp add: same_keyword_stats_def)
  qed
  show ?thesis
    using Update_returns_iff[of fp self prev olabel' is_self_arc is_filler' am_score] body
    by blast
qed

text \<open>
  The first update to reach an inactive destination sets the score \<open>-3\<close>; a second
  update that ties at \<open>-3\<close> leaves that token as it is, and one with \<open>-5/2\<close> wins.
\<close>

theorem Update_competition_witness:
  "\<not> active (Token_new :: real Token)
   \<and> Update_returns Token_new demo_prev True False (- 1)
   \<and> Update real_ops Token_new demo_prev 7 True False (- 1) = Inr demo_first
   \<and> score demo_first = score demo_prev + (- 1)
   \<and> Update real_ops demo_first demo_prev 9 False False (- 1) = Inr demo_first
   \<and> score (projr (Update real_ops demo_first demo_prev 9 False False (- 1 / 2)))
       = score demo_prev + (- 1 / 2)"
proof -
  have first: "Update real_ops Token_new demo_prev 7 True False (- 1) = Inr demo_first"
    by (simp add: Update_def Update_keyword_def Let_def INT_MAX_def std_max_def real_ops_def
        Token_new_def demo_prev_def demo_first_def)
  have tie: "Update real_ops demo_first demo_prev 9 False False (- 1) = Inr demo_first"
    by (simp add: Update_def demo_first_def demo_prev_def)
  have win: "Update real_ops demo_first demo_prev 9 False False (- 1 / 2)
      = Inr (projr (Update real_ops demo_first demo_prev 9 False False (- 1 / 2)))"
    by (simp add: Update_def Update_keyword_def Let_def INT_MAX_def
        demo_first_def demo_prev_def)
  have ret: "Update_returns Token_new demo_prev True False (- 1)"
    using first Update_competition[of real_ops Token_new demo_prev 7 True False "- 1"]
    by blast
  have sc: "score (projr (Update real_ops demo_first demo_prev 9 False False (- 1 / 2)))
       = score demo_prev + (- 1 / 2)"
    using win Update_competition[of real_ops demo_first demo_prev 9 False False "- 1 / 2"]
    by (simp add: demo_first_def demo_prev_def)
  show ?thesis
    using first tie ret sc by (simp add: Token_new_def demo_first_def demo_prev_def)
qed

text \<open>
  Claim C5. An update over a filler arc changes none of the keyword statistics
  (\<open>num_keyword_frames\<close>, \<open>average_keyword_score\<close>, \<open>keyword\<close>,
  \<open>num_frames_of_current_state\<close>, \<open>num_keyword_states\<close>,
  \<open>max_score_of_current_state\<close>, \<open>average_max_keyword_score\<close>,
  \<open>average_max_keyword_score_before\<close>), whether it wins the competition and
  overwrites the score or not; and it always returns.
\<close>

theorem Update_filler_keeps_statistics:
  "\<exists>tok. Update fp self prev olabel' is_self_arc True am_score = Inr tok
         \<and> same_keyword_stats tok self"
  by (simp add: Update_filler same_keyword_stats_def)

text \<open>A filler update that wins with \<open>-5/2\<close> against \<open>-3\<close>.\<close>

theorem Update_filler_keeps_statistics_witness:
  "Update real_ops demo_self demo_prev 7 False True (- 1 / 2)
     = Inr (demo_self\<lparr>score := - 5 / 2, is_filler := True\<rparr>)
   \<and> same_keyword_stats (demo_self\<lparr>score := - 5 / 2, is_filler := True\<rparr>) demo_self"
proof -
  have run: "Update real_ops demo_self demo_prev 7 False True (- 1 / 2)
      = Inr (demo_self\<lparr>score := - 5 / 2, is_filler := True\<rparr>)"
    by (simp add: Update_def demo_self_def demo_prev_def)
  show ?thesis
    using run Update_filler_keeps_statistics[of real_ops demo_self demo_prev 7 False "- 1 / 2"]
    by simp
qed

text \<open>
  Claim C6. A call of \<^verbatim>\<open>Token::Update\<close> returns exactly when \<open>Update_returns\<close>
  holds, and every call that returns, whether the update won the competition or
  lost it, leaves \<open>active\<close> true and \<open>is_filler\<close> equal to the classification
  passed to this call. (A call that does not return stopped in the \<^verbatim>\<open>CHECK\<close> of
  line 198 or in an overflow, and leaves no token.)
\<close>

theorem Update_marks_active:
  "((\<exists>tok. Update fp self prev olabel' is_self_arc is_filler' am_score = Inr tok)
      \<longleftrightarrow> Update_returns self prev is_self_arc is_filler' am_score)
   \<and> (\<forall>tok. Update fp self prev olabel' is_self_arc is_filler' am_score = Inr tok
          \<longrightarrow> active tok \<and> is_filler tok = is_filler')"
  using Update_returns_iff[of fp self prev olabel' is_self_arc is_filler' am_score]
    Update_result_flags[of fp self prev olabel' is_self_arc is_filler' am_score]
  by blast

text \<open>
  A keyword update and a filler update each make an inactive destination active,
  and a filler update that loses with \<open>-4\<close> against \<open>-3\<close> still sets \<open>is_filler\<close>.
\<close>

theorem Update_marks_active_witness:
  "\<not> active (Token_new :: real Token) \<and> is_filler (Token_new :: real Token)
   \<and> Update_returns Token_new demo_prev True False (- 1)
   \<and> Update real_ops Token_new demo_prev 7 True False (- 1) = Inr demo_first
   \<and> active demo_first \<and> \<not> is_filler demo_first
   \<and> Update real_ops Token_new demo_prev 0 False True (- 2)
       = Inr (Token_new\<lparr>score := - 4, active := True\<rparr>)
   \<and> Update real_ops demo_self demo_prev 0 False True (- 2) = Inr (demo_self\<lparr>is_filler := True\<rparr>)
   \<and> active (demo_self\<lparr>is_filler := True\<rparr>)
   \<and> is_filler (demo_self\<lparr>is_filler := True\<rparr>)
   \<and> \<not> is_filler demo_self"
proof -
  have first: "Update real_ops Token_new demo_prev 7 True False (- 1) = Inr demo_first"
    by (simp add: Update_def Update_keyword_def Let_def INT_MAX_def std_max_def real_ops_def
        Token_new_def demo_prev_def demo_first_def)
  have fill: "Update real_ops Token_new demo_prev 0 False True (- 2)
       = Inr (Token_new\<lparr>score := - 4, active := True\<rparr>)"
    by (simp add: Update_filler Token_new_def demo_prev_def)
  have lost: "Update real_ops demo_self demo_prev 0 False True (- 2)
      = Inr (demo_self\<lparr>is_filler := True\<rparr>)"
    by (simp add: Update_def demo_self_def demo_prev_def)
  have ret: "Update_returns Token_new demo_prev True False (- 1)"
    using first Update_marks_active[of real_ops Token_new demo_prev 7 True False "- 1"]
    by blast
  have flags: "active demo_first \<and> is_filler demo_first = False"
    using first Update_marks_active[of real_ops Token_new demo_prev 7 True False "- 1"]
    by blast
  show ?thesis
    using first fill lost ret flags by (simp add: Token_new_def demo_self_def)
qed

text \<open>
  Claim C10. When the competition is lost, that is the destination is active and
  its score is greater than or equal to \<open>prev.score + am_score\<close>, the call changes
  \<open>active\<close> and \<open>is_filler\<close> only: the score and the eight statistics keep their
  values. (\<open>Update_lost\<close> above is the same fact for the negated test of line 183,
  which also covers an unordered comparison.)
\<close>

theorem Update_lost_keeps_fields:
  fixes self prev :: "'f::{zero,plus,times,inverse,preorder} Token"
  assumes "active self" and "score prev + am_score \<le> score self"
  shows "\<exists>tok. Update fp self prev olabel' is_self_arc is_filler' am_score = Inr tok
           \<and> tok = self\<lparr>active := True, is_filler := is_filler'\<rparr>
           \<and> score tok = score self \<and> same_keyword_stats tok self"
proof -
  have "\<not> score self < score prev + am_score"
    using assms(2) by (simp add: less_le_not_le)
  then show ?thesis
    using assms(1) by (simp add: Update_lost same_keyword_stats_def)
qed

theorem Update_lost_keeps_fields_witness:
  "active demo_self \<and> score demo_prev + (- 2) \<le> score demo_self
   \<and> Update real_ops demo_self demo_prev 7 True False (- 2) = Inr demo_self"
proof -
  have a: "active demo_self" by (simp add: demo_self_def)
  have le: "score demo_prev + (- 2) \<le> score demo_self"
    by (simp add: demo_self_def demo_prev_def)
  show ?thesis
    using a le Update_lost_keeps_fields[OF a le, of real_ops 7 True False]
    by (simp add: demo_self_def)
qed

section \<open>What every reachable decoder keeps\<close>

lemma map_Token_Reset: "map Token_Reset toks = replicate (length toks) Token_new"
  by (induction toks) (simp_all add: Token_Reset_new)

lemma tokens_ok_replicate: "tokens_ok (replicate n Token_new)"
  by (simp add: tokens_ok_def Token_new_def)

lemma tokens_ok_update:
  "tokens_ok toks \<Longrightarrow> 0 \<le> num_keyword_states tok \<Longrightarrow> tokens_ok (toks[k := tok])"
  unfolding tokens_ok_def using set_update_subset_insert[of toks k tok] by auto

lemma Update_keyword_states:
  assumes "Update fp self prev olabel' is_self_arc is_filler' am_score = Inr tok"
    and "0 \<le> num_keyword_states self" and "0 \<le> num_keyword_states prev"
  shows "0 \<le> num_keyword_states tok"
  using assms
  by (auto simp: Update_def Update_keyword_def Let_def split: if_splits sum.splits)

lemma arc_update_ok:
  assumes "arc_update fp ks am_score num i cur arc = Inr cur'"
    and "tokens_ok cur" and "0 \<le> num_keyword_states (prev_tokens ks ! i)"
  shows "length cur' = length cur \<and> tokens_ok cur'"
proof -
  from assms(1) obtain tok where
    upd: "Update fp (cur ! nat (next_state arc)) (prev_tokens ks ! i) (olabel arc)
            (int i = next_state arc) (IsFillerPhone ks (ilabel arc))
            (logf fp (am_score ! nat (ilabel arc - 1))) = Inr tok"
    and cur': "cur' = cur[nat (next_state arc) := tok]"
    and rng: "0 \<le> next_state arc" "next_state arc < int (length cur)"
    by (auto simp: arc_update_def Let_def split: if_splits sum.splits)
  have "cur ! nat (next_state arc) \<in> set cur"
    using rng by simp
  then have "0 \<le> num_keyword_states (cur ! nat (next_state arc))"
    using assms(2) by (simp add: tokens_ok_def)
  then have "0 \<le> num_keyword_states tok"
    using Update_keyword_states[OF upd] assms(3) by simp
  then show ?thesis
    using cur' assms(2) by (simp add: tokens_ok_update)
qed

lemma arcs_loop_ok:
  assumes "arcs_loop fp ks am_score num i arcs cur = Inr cur'"
    and "tokens_ok cur" and "0 \<le> num_keyword_states (prev_tokens ks ! i)"
  shows "length cur' = length cur \<and> tokens_ok cur'"
  using assms
proof (induction arcs arbitrary: cur)
  case Nil
  then show ?case by simp
next
  case (Cons arc arcs)
  from Cons.prems(1) obtain mid where
    step: "arc_update fp ks am_score num i cur arc = Inr mid"
    and rest: "arcs_loop fp ks am_score num i arcs mid = Inr cur'"
    by (auto split: sum.splits)
  have mid: "length mid = length cur \<and> tokens_ok mid"
    using arc_update_ok[OF step Cons.prems(2) Cons.prems(3)] .
  show ?case
    using Cons.IH[OF rest _ Cons.prems(3)] mid by simp
qed

lemma states_loop_ok:
  assumes "states_loop fp ks am_score num is cur = Inr cur'"
    and "tokens_ok cur" and "tokens_ok (prev_tokens ks)"
    and "\<forall>i \<in> set is. i < length (prev_tokens ks)"
  shows "length cur' = length cur \<and> tokens_ok cur'"
  using assms
proof (induction "is" arbitrary: cur)
  case Nil
  then show ?case by simp
next
  case (Cons i "is")
  have prev_i: "0 \<le> num_keyword_states (prev_tokens ks ! i)"
    using Cons.prems(3,4) by (simp add: tokens_ok_def)
  have rest_rng: "\<forall>i \<in> set is. i < length (prev_tokens ks)"
    using Cons.prems(4) by simp
  show ?case
  proof (cases "active (prev_tokens ks ! i)")
    case True
    with Cons.prems(1) obtain mid where
      step: "arcs_loop fp ks am_score num i (ArcsOf (the_fst ks) i) cur = Inr mid"
      and rest: "states_loop fp ks am_score num is mid = Inr cur'"
      by (auto split: sum.splits)
    have mid: "length mid = length cur \<and> tokens_ok mid"
      using arcs_loop_ok[OF step Cons.prems(2) prev_i] .
    show ?thesis
      using Cons.IH[OF rest _ Cons.prems(3) rest_rng] mid by simp
  next
    case False
    with Cons.prems(1) have rest: "states_loop fp ks am_score num is cur = Inr cur'"
      by simp
    show ?thesis
      using Cons.IH[OF rest Cons.prems(2) Cons.prems(3) rest_rng] .
  qed
qed

lemma propagate_ok:
  assumes "propagate fp ks am_score num = Inr cur" and "buffers_ok ks"
  shows "length cur = length (cur_tokens ks) \<and> tokens_ok cur"
  using states_loop_ok[of fp ks am_score num "[0..<length (prev_tokens ks)]" "cur_tokens ks" cur]
    assms
  by (simp add: propagate_def buffers_ok_def)

lemma Reset_eq:
  "Reset ks =
     (if prev_tokens ks = [] then Inl OutOfBounds
      else Inr (ks\<lparr>prev_tokens :=
                     (replicate (length (prev_tokens ks)) Token_new)[0 := Token_new\<lparr>active := True\<rparr>],
                   cur_tokens := replicate (length (cur_tokens ks)) Token_new,
                   num_frames := 0\<rparr>))"
  by (simp add: Reset_def Let_def map_Token_Reset)

lemma tokens_ok_start:
  "tokens_ok ((replicate n Token_new)[0 := Token_new\<lparr>active := True\<rparr>])"
  by (rule tokens_ok_update) (simp_all add: tokens_ok_replicate, simp add: Token_new_def)

lemma Reset_ok:
  assumes "Reset ks = Inr ks'"
    and "length (prev_tokens ks) = NumStates (the_fst ks)"
    and "length (cur_tokens ks) = NumStates (the_fst ks)"
  shows "buffers_ok ks'"
proof -
  have ne: "prev_tokens ks \<noteq> []"
    using assms(1) by (auto simp: Reset_eq split: if_splits)
  then have ks': "ks' = ks\<lparr>prev_tokens :=
        (replicate (length (prev_tokens ks)) Token_new)[0 := Token_new\<lparr>active := True\<rparr>],
      cur_tokens := replicate (length (cur_tokens ks)) Token_new, num_frames := 0\<rparr>"
    using assms(1) by (simp add: Reset_eq)
  have pos: "0 < NumStates (the_fst ks)"
    using ne assms(2) by (metis length_greater_0_conv)
  show ?thesis
    unfolding buffers_ok_def ks'
    using pos assms(2,3) by (simp add: tokens_ok_start tokens_ok_replicate)
qed

lemma Spot_ok:
  assumes "Spot fp ks am_score num = Inr (ks', out)" and "buffers_ok ks"
  shows "buffers_ok ks'"
proof -
  from assms(1) obtain cur b where
    pr: "propagate fp ks am_score num = Inr cur"
    and best: "find_best (the_fst ks) cur = Inr b"
    by (auto simp: Spot_def split: sum.splits)
  have cur: "length cur = length (cur_tokens ks) \<and> tokens_ok cur"
    using propagate_ok[OF pr assms(2)] .
  show ?thesis
    using assms cur pr best
    by (auto simp: Spot_def Let_def buffers_ok_def reset_first_def map_Token_Reset
        tokens_ok_replicate split: if_splits sum.splits)
qed

lemma reachable_buffers_ok: "reachable fp ks \<Longrightarrow> buffers_ok ks"
proof (induction rule: reachable.induct)
  case (constructed fst' filler_table' ks)
  then show ?case
    unfolding KeywordSpot_new_def by (rule Reset_ok) simp_all
next
  case (after_Reset ks ks')
  then show ?case using Reset_ok[of ks ks'] by (simp add: buffers_ok_def)
next
  case (after_Spot ks am_score num ks' out)
  then show ?case by (auto intro: Spot_ok)
qed (simp_all add: buffers_ok_def SetSpotThreshold_def SetMinKeywordFrames_def
      SetMinFramesForLastState_def)

section \<open>Properties of KeywordSpot::Reset\<close>

lemmas run_defs = Spot_def propagate_def arc_update_def IsFillerPhone_def filler_demo_def
  real_ops_def Update_def Update_keyword_def Let_def INT_MAX_def kMaxTokenPassingFrames_def
  find_best_def best_step_def decide_def Token_Reset_new reset_first_def std_max_def
  Token_new_def upt_rec

lemma demo_ks_new: "KeywordSpot_new real_ops fst_demo filler_demo = Inr demo_ks"
  by (simp add: KeywordSpot_new_def Reset_eq fst_demo_def demo_ks_def real_ops_def
      numeral_3_eq_3)

lemma demo_Spot1:
  "Spot real_ops demo_ks frame_phone2 3 = Inr (demo_ks1, (False, 0, 0))"
  by (simp add: run_defs fst_demo_def demo_ks_def demo_ks1_def frame_phone2_def)

lemma demo_ks1_reachable: "reachable real_ops demo_ks1"
  using reachable.constructed[OF demo_ks_new] demo_Spot1 by (rule reachable.after_Spot)

text \<open>
  Claim C8. A call of \<^verbatim>\<open>Reset\<close> on a decoder whose transducer has a state 0
  returns, and afterwards state 0 of the previous-frame buffer is active with the
  score and every statistic zero, every other token of that buffer and every
  token of the current-frame buffer is \<open>Token_new\<close> (inactive, all zero), and the
  frame counter is 0. On empty buffers line 64 writes out of bounds.
\<close>

theorem Reset_postcondition:
  assumes "prev_tokens ks \<noteq> []"
  shows "\<exists>ks'. Reset ks = Inr ks'
          \<and> prev_tokens ks' ! 0 =
              \<lparr>active = True, is_filler = True, score = 0,
               num_keyword_frames = 0, average_keyword_score = 0,
               keyword = 0, num_frames_of_current_state = 0,
               num_keyword_states = 0, max_score_of_current_state = 0,
               average_max_keyword_score = 0, average_max_keyword_score_before = 0\<rparr>
          \<and> length (prev_tokens ks') = length (prev_tokens ks)
          \<and> (\<forall>i. 0 < i \<and> i < length (prev_tokens ks') \<longrightarrow> prev_tokens ks' ! i = Token_new)
          \<and> length (cur_tokens ks') = length (cur_tokens ks)
          \<and> (\<forall>i. i < length (cur_tokens ks') \<longrightarrow> cur_tokens ks' ! i = Token_new)
          \<and> num_frames ks' = 0"
  using assms by (simp add: Reset_eq) (simp add: Token_new_def)

theorem Reset_postcondition_witness:
  "prev_tokens demo_ks1 \<noteq> []
   \<and> Reset demo_ks1 = Inr demo_ks
   \<and> active (prev_tokens demo_ks ! 0) \<and> \<not> active (prev_tokens demo_ks ! 1)
   \<and> \<not> active (prev_tokens demo_ks ! 2) \<and> num_frames demo_ks = 0"
proof -
  have ne: "prev_tokens demo_ks1 \<noteq> []" by (simp add: demo_ks1_def)
  have "Reset demo_ks1 = Inr demo_ks"
    by (simp add: Reset_eq demo_ks1_def demo_ks_def numeral_3_eq_3)
  then show ?thesis
    using ne Reset_postcondition[OF ne] by (simp add: demo_ks_def Token_new_def)
qed

text \<open>
  Claim C9. Whatever calls a decoder has been through, \<^verbatim>\<open>Reset\<close> followed by a
  sequence of frames gives, call by call, the outputs (or the failure) that the
  same frames give on a decoder freshly constructed on the same transducer and
  filler table and set to the same three configuration values.
\<close>

theorem Reset_then_replay:
  assumes "reachable fp ks"
  shows "\<exists>ks_reset ks_fresh.
           Reset ks = Inr ks_reset
         \<and> KeywordSpot_new fp (the_fst ks) (filler_table ks) = Inr ks_fresh
         \<and> Spot_all fp ks_reset frames =
             Spot_all fp
               (SetMinFramesForLastState
                  (SetMinKeywordFrames
                     (SetSpotThreshold ks_fresh (spot_threshold ks))
                     (min_keyword_frames ks))
                  (min_frames_for_last_state ks))
               frames"
proof -
  have ok: "buffers_ok ks" using assms by (rule reachable_buffers_ok)
  define n where "n = NumStates (the_fst ks)"
  have ne: "prev_tokens ks \<noteq> []" and lp: "length (prev_tokens ks) = n"
    and lc: "length (cur_tokens ks) = n"
    using ok by (simp_all add: buffers_ok_def n_def)
  have pos: "0 < n" using ne lp by (metis length_greater_0_conv)
  define ks_reset where "ks_reset = ks\<lparr>prev_tokens :=
        (replicate n Token_new)[0 := Token_new\<lparr>active := True\<rparr>],
      cur_tokens := replicate n Token_new, num_frames := 0\<rparr>"
  define ks_fresh where "ks_fresh =
      \<lparr>the_fst = the_fst ks, filler_table = filler_table ks, num_frames = 0,
       prev_tokens = (replicate n Token_new)[0 := Token_new\<lparr>active := True\<rparr>],
       cur_tokens = replicate n Token_new,
       spot_threshold = float_half fp,
       min_keyword_frames = 0, min_frames_for_last_state = 5\<rparr>"
  have r: "Reset ks = Inr ks_reset"
    using ne lp lc by (simp add: Reset_eq ks_reset_def)
  have f: "KeywordSpot_new fp (the_fst ks) (filler_table ks) = Inr ks_fresh"
    using pos by (simp add: KeywordSpot_new_def Reset_eq ks_fresh_def n_def)
  have same: "SetMinFramesForLastState
                  (SetMinKeywordFrames
                     (SetSpotThreshold ks_fresh (spot_threshold ks))
                     (min_keyword_frames ks))
                  (min_frames_for_last_state ks) = ks_reset"
    by (simp add: SetMinFramesForLastState_def SetMinKeywordFrames_def SetSpotThreshold_def
        ks_fresh_def ks_reset_def)
  show ?thesis using r f same by simp
qed

theorem Reset_then_replay_witness:
  "reachable real_ops (SetMinFramesForLastState demo_ks1 2)
   \<and> Reset (SetMinFramesForLastState demo_ks1 2)
       = Inr (demo_ks\<lparr>min_frames_for_last_state := 2\<rparr>)
   \<and> Spot_all real_ops (demo_ks\<lparr>min_frames_for_last_state := 2\<rparr>)
        [(frame_phone2, 3), (frame_phone2, 3), (frame_phone3, 3), (frame_phone3, 3)]
       = [Inr (False, 0, 0), Inr (False, exp (- (5 / 2)), 7), Inr (False, 1, 7),
          Inr (True, 1, 7)]
   \<and> Spot_all real_ops
        (SetMinFramesForLastState
           (SetMinKeywordFrames
              (SetSpotThreshold (projr (KeywordSpot_new real_ops fst_demo filler_demo)) (1 / 2))
              0)
           2)
        [(frame_phone2, 3), (frame_phone2, 3), (frame_phone3, 3), (frame_phone3, 3)]
       = [Inr (False, 0, 0), Inr (False, exp (- (5 / 2)), 7), Inr (False, 1, 7),
          Inr (True, 1, 7)]"
proof -
  let ?frames = "[(frame_phone2, 3), (frame_phone2, 3), (frame_phone3, 3), (frame_phone3, 3)]"
  have r: "reachable real_ops (SetMinFramesForLastState demo_ks1 2)"
    using demo_ks1_reachable by (rule reachable.after_SetMinFramesForLastState)
  have reset: "Reset (SetMinFramesForLastState demo_ks1 2)
      = Inr (demo_ks\<lparr>min_frames_for_last_state := 2\<rparr>)"
    by (simp add: Reset_eq SetMinFramesForLastState_def demo_ks1_def demo_ks_def
        numeral_3_eq_3)
  have run: "Spot_all real_ops (demo_ks\<lparr>min_frames_for_last_state := 2\<rparr>) ?frames
      = [Inr (False, 0, 0), Inr (False, exp (- (5 / 2)), 7), Inr (False, 1, 7),
         Inr (True, 1, 7)]"
    by (simp add: run_defs fst_demo_def demo_ks_def frame_phone2_def frame_phone3_def)
  have fields: "the_fst (SetMinFramesForLastState demo_ks1 2) = fst_demo"
    "filler_table (SetMinFramesForLastState demo_ks1 2) = filler_demo"
    "spot_threshold (SetMinFramesForLastState demo_ks1 2) = 1 / 2"
    "min_keyword_frames (SetMinFramesForLastState demo_ks1 2) = 0"
    "min_frames_for_last_state (SetMinFramesForLastState demo_ks1 2) = 2"
    by (simp_all add: SetMinFramesForLastState_def demo_ks1_def demo_ks_def)
  show ?thesis
    using r reset run Reset_then_replay[OF r, of ?frames]
    by (auto simp: fields)
qed

section \<open>Properties of KeywordSpot::Spot\<close>

subsection \<open>A long run of filler frames\<close>

lemma loop_ks_new: "KeywordSpot_new real_ops fst_loop filler_demo = Inr (loop_ks 0)"
  by (simp add: KeywordSpot_new_def Reset_eq fst_loop_def loop_ks_def real_ops_def)

lemma loop_ks_fields:
  "the_fst (loop_ks k) = fst_loop"
  "filler_table (loop_ks k) = filler_demo"
  "num_frames (loop_ks k) = int k"
  "prev_tokens (loop_ks k) = [Token_new\<lparr>active := True\<rparr>]"
  "cur_tokens (loop_ks k) = [Token_new]"
  by (simp_all add: loop_ks_def)

lemma loop_propagate:
  "propagate real_ops (loop_ks k) [1] 1 = Inr [Token_new\<lparr>active := True\<rparr>]"
  by (simp add: propagate_def loop_ks_fields fst_loop_def arc_update_def IsFillerPhone_def
      filler_demo_def real_ops_def Update_filler Token_new_def)

lemma loop_find_best:
  "find_best fst_loop [Token_new\<lparr>active := True\<rparr> :: real Token]
     = Inr \<lparr>best_state = 0, best_final_state = 0, best_score = 0,
            best_final_score = 0, reach_final = False\<rparr>"
  by (simp add: find_best_def Token_new_def)

lemma loop_Spot:
  assumes "k < 60000"
  shows "Spot real_ops (loop_ks k) [1] 1 = Inr (loop_ks (Suc k), (False, 0, 0))"
proof -
  have "Spot real_ops (loop_ks k) [1] 1
      = Inr ((loop_ks k)\<lparr>prev_tokens := [Token_new\<lparr>active := True\<rparr>],
                          cur_tokens := [Token_new], num_frames := int k + 1\<rparr>, (False, 0, 0))"
    using assms
    by (simp add: Spot_def loop_propagate loop_ks_fields loop_find_best decide_def Let_def
        INT_MAX_def kMaxTokenPassingFrames_def Token_Reset_new)
  then show ?thesis by (simp add: loop_ks_def)
qed

lemma loop_reachable: "k \<le> 60000 \<Longrightarrow> reachable real_ops (loop_ks k)"
proof (induction k)
  case 0
  show ?case using loop_ks_new by (rule reachable.constructed)
next
  case (Suc k)
  then have "reachable real_ops (loop_ks k)" and "k < 60000" by simp_all
  then show ?case using loop_Spot[of k] by (blast intro: reachable.after_Spot)
qed

lemma loop_Spot_60000:
  "Spot real_ops (loop_ks 60000) [1] 1
     = Inr ((loop_ks 60001)\<lparr>prev_tokens := [Token_new]\<rparr>, (False, 0, 0))"
proof -
  have "Spot real_ops (loop_ks 60000) [1] 1
      = Inr ((loop_ks 60000)\<lparr>prev_tokens := [Token_new],
                          cur_tokens := [Token_new], num_frames := 60001\<rparr>, (False, 0, 0))"
    by (simp add: Spot_def loop_propagate loop_ks_fields loop_find_best decide_def Let_def
        INT_MAX_def kMaxTokenPassingFrames_def Token_Reset_new reset_first_def)
      (simp add: Token_new_def)
  then show ?thesis by (simp add: loop_ks_def)
qed

subsection \<open>Selection and decision\<close>

text \<open>The loop keeps both invariants, for any arithmetic whose \<open><\<close> is irreflexive
  and transitive.\<close>

lemma best_step_final_inv:
  fixes cur :: "'f::preorder Token list"
  assumes "final_inv fst' cur S b"
  shows "final_inv fst' cur (insert i S) (best_step fst' cur i b)"
proof (cases "active (cur ! i) \<and> IsFinal fst' i")
  case False
  then show ?thesis
    using assms by (auto simp: final_inv_def best_step_def Let_def)
next
  case cand: True
  show ?thesis
  proof (cases "reach_final b")
    case False
    then show ?thesis
      using assms cand by (auto simp: final_inv_def best_step_def Let_def)
  next
    case True
    show ?thesis
    proof (cases "best_final_score b < score (cur ! i)")
      case better: True
      have "\<not> score (cur ! i) < score (cur ! j)"
        if "j \<in> S" "active (cur ! j)" "IsFinal fst' j" for j
      proof
        assume "score (cur ! i) < score (cur ! j)"
        then have "score (cur ! best_final_state b) < score (cur ! j)"
          using better assms True by (auto simp: final_inv_def intro: less_trans)
        then show False using assms True that by (auto simp: final_inv_def)
      qed
      then show ?thesis
        using assms cand True better by (auto simp: final_inv_def best_step_def Let_def)
    next
      case False
      then show ?thesis
        using assms cand True by (auto simp: final_inv_def best_step_def Let_def)
    qed
  qed
qed

lemma best_loop_final_inv:
  fixes cur :: "'f::preorder Token list"
  assumes "final_inv fst' cur S b"
  shows "final_inv fst' cur (S \<union> set is) (best_loop fst' cur is b)"
  using assms
proof (induction "is" arbitrary: S b)
  case Nil
  then show ?case by simp
next
  case (Cons i "is")
  have "final_inv fst' cur (insert i S \<union> set is) (best_loop fst' cur is (best_step fst' cur i b))"
    using Cons.prems by (intro Cons.IH best_step_final_inv)
  then show ?case by simp
qed

lemma best_step_best_inv:
  fixes cur :: "'f::preorder Token list"
  assumes "best_inv cur S b"
  shows "best_inv cur (insert i S) (best_step fst' cur i b)"
proof (cases "active (cur ! i) \<and> best_score b < score (cur ! i)")
  case better: True
  have others: "\<not> score (cur ! i) < score (cur ! j)" if "j \<in> S" "active (cur ! j)" for j
  proof
    assume "score (cur ! i) < score (cur ! j)"
    then have "score (cur ! best_state b) < score (cur ! j)"
      using better assms by (auto simp: best_inv_def intro: less_trans)
    then show False using assms that by (auto simp: best_inv_def)
  qed
  have start: "\<not> score (cur ! i) < score (cur ! 0)"
  proof
    assume "score (cur ! i) < score (cur ! 0)"
    then have "score (cur ! best_state b) < score (cur ! 0)"
      using better assms by (auto simp: best_inv_def intro: less_trans)
    then show False using assms by (auto simp: best_inv_def)
  qed
  show ?thesis
    using assms better others start by (auto simp: best_inv_def best_step_def Let_def)
next
  case False
  then show ?thesis
    using assms by (auto simp: best_inv_def best_step_def Let_def)
qed

lemma best_loop_best_inv:
  fixes cur :: "'f::preorder Token list"
  assumes "best_inv cur S b"
  shows "best_inv cur (S \<union> set is) (best_loop fst' cur is b)"
  using assms
proof (induction "is" arbitrary: S b)
  case Nil
  then show ?case by simp
next
  case (Cons i "is")
  have "best_inv cur (insert i S \<union> set is) (best_loop fst' cur is (best_step fst' cur i b))"
    using Cons.prems by (intro Cons.IH best_step_best_inv)
  then show ?case by simp
qed

lemma find_best_inv:
  fixes cur :: "'f::{zero,preorder} Token list"
  assumes "find_best fst' cur = Inr b"
  shows "final_inv fst' cur {1..<length cur} b \<and> best_inv cur {1..<length cur} b"
proof -
  let ?b0 = "\<lparr>best_state = 0, best_final_state = 0, best_score = score (cur ! 0),
               best_final_score = 0, reach_final = False\<rparr>"
  have b: "b = best_loop fst' cur [1..<length cur] ?b0"
    using assms by (auto simp: find_best_def split: if_splits)
  have "final_inv fst' cur {} ?b0" by (simp add: final_inv_def)
  from best_loop_final_inv[OF this, of "[1..<length cur]"]
  have f: "final_inv fst' cur {1..<length cur} b" by (simp add: b)
  have "best_inv cur {} ?b0" by (simp add: best_inv_def)
  from best_loop_best_inv[OF this, of "[1..<length cur]" fst']
  have g: "best_inv cur {1..<length cur} b" by (simp add: b)
  show ?thesis using f g by simp
qed

lemma ring_ks_new:
  "KeywordSpot_new real_ops fst_ring filler_demo
     = Inr (ring_ks\<lparr>min_frames_for_last_state := 5\<rparr>)"
  by (simp add: KeywordSpot_new_def Reset_eq fst_ring_def ring_ks_def real_ops_def
      numeral_2_eq_2)

lemma ring_ks_reachable: "reachable real_ops ring_ks"
proof -
  have "reachable real_ops (SetMinFramesForLastState (ring_ks\<lparr>min_frames_for_last_state := 5\<rparr>) 1)"
    using reachable.constructed[OF ring_ks_new]
    by (rule reachable.after_SetMinFramesForLastState)
  then show ?thesis by (simp add: SetMinFramesForLastState_def ring_ks_def)
qed

text \<open>
  Claim C4, amended. The selection step of \<^verbatim>\<open>Spot\<close> scans the states other than
  state 0. It reports a final state reached exactly when one of them is active and
  final, and \<^verbatim>\<open>best_final_state\<close> is then such a state that no other such state
  beats: among these states the active final ones are considered and the inactive
  or non-final ones are not, while state 0 is never a candidate. Independently,
  when state 0 is active, \<^verbatim>\<open>best_state\<close> is an active state that no active state
  beats.
\<close>

theorem find_best_selection:
  fixes cur :: "'f::{zero,preorder} Token list"
  assumes "find_best fst' cur = Inr b"
  shows "(reach_final b \<longleftrightarrow>
            (\<exists>i. 0 < i \<and> i < length cur \<and> active (cur ! i) \<and> IsFinal fst' i))
       \<and> (reach_final b \<longrightarrow>
            0 < best_final_state b \<and> best_final_state b < length cur \<and>
            active (cur ! best_final_state b) \<and> IsFinal fst' (best_final_state b) \<and>
            (\<forall>i. 0 < i \<and> i < length cur \<and> active (cur ! i) \<and> IsFinal fst' i
                 \<longrightarrow> \<not> score (cur ! best_final_state b) < score (cur ! i)))
       \<and> (active (cur ! 0) \<longrightarrow>
            best_state b < length cur \<and> active (cur ! best_state b) \<and>
            (\<forall>i. i < length cur \<and> active (cur ! i)
                 \<longrightarrow> \<not> score (cur ! best_state b) < score (cur ! i)))"
proof -
  have f: "final_inv fst' cur {1..<length cur} b"
    and g: "best_inv cur {1..<length cur} b"
    using find_best_inv[OF assms] by simp_all
  have ne: "cur \<noteq> []"
    using assms by (auto simp: find_best_def split: if_splits)
  have rng: "i \<in> {1..<length cur} \<longleftrightarrow> 0 < i \<and> i < length cur" for i
    by auto
  have 1: "reach_final b \<longleftrightarrow>
            (\<exists>i. 0 < i \<and> i < length cur \<and> active (cur ! i) \<and> IsFinal fst' i)"
    using f unfolding final_inv_def by (metis rng)
  have 2: "reach_final b \<longrightarrow>
            0 < best_final_state b \<and> best_final_state b < length cur \<and>
            active (cur ! best_final_state b) \<and> IsFinal fst' (best_final_state b) \<and>
            (\<forall>i. 0 < i \<and> i < length cur \<and> active (cur ! i) \<and> IsFinal fst' i
                 \<longrightarrow> \<not> score (cur ! best_final_state b) < score (cur ! i))"
    using f unfolding final_inv_def by (metis rng)
  have 3: "best_state b < length cur \<and> active (cur ! best_state b) \<and>
            (\<forall>i. i < length cur \<and> active (cur ! i)
                 \<longrightarrow> \<not> score (cur ! best_state b) < score (cur ! i))"
    if a0: "active (cur ! 0)"
  proof -
    have in_rng: "best_state b < length cur"
      using g ne unfolding best_inv_def by (metis rng length_greater_0_conv)
    have act: "active (cur ! best_state b)"
      using g a0 unfolding best_inv_def by metis
    have others: "\<not> score (cur ! best_state b) < score (cur ! i)"
      if "0 < i" "i < length cur" "active (cur ! i)" for i
      using g that unfolding best_inv_def by (metis rng)
    have zero: "\<not> score (cur ! best_state b) < score (cur ! 0)"
      using g unfolding best_inv_def by blast
    show ?thesis
      using in_rng act others zero by (metis neq0_conv)
  qed
  show ?thesis using 1 2 3 by blast
qed

text \<open>
  The claim as the spec has it fails on the ring. After the second frame state 0
  is active and final, and the selection ends with \<^verbatim>\<open>reach_final = false\<close>: the
  loop of lines 104 to 119 starts at state 1. And after a first frame that gives
  phone 2 the score \<open>exp (-5)\<close>, state 1 is the only active state, with the score
  \<open>-5\<close>, and the selection ends with \<^verbatim>\<open>best_state = 0\<close>: line 102 takes the score
  0 of the inactive state 0 as the best so far.
\<close>

theorem find_best_start_state_counterexample:
  "propagate real_ops ring_ks frame_phone3 3 = Inr [Token_new, ring_tok1_low]
   \<and> \<not> active (Token_new :: real Token) \<and> active ring_tok1_low
   \<and> find_best fst_ring [Token_new, ring_tok1_low]
       = Inr \<lparr>best_state = 0, best_final_state = 0, best_score = 0,
              best_final_score = 0, reach_final = False\<rparr>
   \<and> active ring_tok0 \<and> IsFinal fst_ring 0
   \<and> find_best fst_ring [ring_tok0, Token_new]
       = Inr \<lparr>best_state = 0, best_final_state = 0, best_score = 0,
              best_final_score = 0, reach_final = False\<rparr>"
proof -
  have 1: "propagate real_ops ring_ks frame_phone3 3 = Inr [Token_new, ring_tok1_low]"
    by (simp add: run_defs fst_ring_def ring_ks_def ring_tok1_low_def frame_phone3_def)
  have 2: "find_best fst_ring [Token_new, ring_tok1_low]
       = Inr \<lparr>best_state = 0, best_final_state = 0, best_score = 0,
              best_final_score = 0, reach_final = False\<rparr>"
    by (simp add: find_best_def best_step_def Let_def upt_rec fst_ring_def ring_tok1_low_def
        Token_new_def)
  have 3: "find_best fst_ring [ring_tok0, Token_new]
       = Inr \<lparr>best_state = 0, best_final_state = 0, best_score = 0,
              best_final_score = 0, reach_final = False\<rparr>"
    by (simp add: find_best_def best_step_def Let_def upt_rec fst_ring_def ring_tok0_def
        Token_new_def)
  show ?thesis
    using 1 2 3 by (simp add: ring_tok1_low_def ring_tok0_def fst_ring_def Token_new_def)
qed

text \<open>The example two frames in: all three states are active, the final state 2 has
  the best score.\<close>

theorem find_best_selection_witness:
  "propagate real_ops (SetMinFramesForLastState demo_ks1 1) frame_phone3 3 = Inr demo_cur2
   \<and> find_best fst_demo demo_cur2
       = Inr \<lparr>best_state = 2, best_final_state = 2, best_score = 0,
              best_final_score = 0, reach_final = True\<rparr>
   \<and> active (demo_cur2 ! 0) \<and> active (demo_cur2 ! 1) \<and> active (demo_cur2 ! 2)
   \<and> IsFinal fst_demo 2 \<and> \<not> IsFinal fst_demo 1
   \<and> score (demo_cur2 ! 0) = - 10 \<and> score (demo_cur2 ! 1) = - 5 \<and> score (demo_cur2 ! 2) = 0"
proof -
  have p: "propagate real_ops (SetMinFramesForLastState demo_ks1 1) frame_phone3 3
      = Inr demo_cur2"
    by (simp add: run_defs fst_demo_def demo_ks_def demo_ks1_def frame_phone3_def
        SetMinFramesForLastState_def demo_cur2_def)
  have b: "find_best fst_demo demo_cur2
       = Inr \<lparr>best_state = 2, best_final_state = 2, best_score = 0,
              best_final_score = 0, reach_final = True\<rparr>"
    by (simp add: find_best_def best_step_def Let_def upt_rec fst_demo_def demo_cur2_def
        Token_new_def)
  show ?thesis
    using p b find_best_selection[OF b]
    by (simp add: demo_cur2_def fst_demo_def Token_new_def)
qed

text \<open>
  Claim C1, amended. Take a call of \<^verbatim>\<open>Spot\<close> that returns. If a final state
  other than state 0 is active in the current-frame buffer, the confidence is
  \<^verbatim>\<open>expf\<close> of \<open>average_max_keyword_score\<close> of an active final state other than
  state 0 that no other such state beats, the keyword is that token's, and the
  call reports a spot exactly when \<open>num_keyword_frames \<ge> min_keyword_frames\<close>,
  \<open>num_frames_of_current_state \<ge> min_frames_for_last_state\<close> and
  \<open>confidence > spot_threshold\<close> hold for that token. If no final state other than
  state 0 is active, the call returns \<open>(False, 0, 0)\<close>.
\<close>

theorem Spot_decision:
  fixes ks :: "'f::{zero,plus,times,inverse,preorder} KeywordSpot"
  assumes "Spot fp ks am_score num = Inr (ks', legal, confidence, keyword')"
  shows "\<exists>cur. propagate fp ks am_score num = Inr cur \<and>
     (if \<exists>i. 0 < i \<and> i < length cur \<and> active (cur ! i) \<and> IsFinal (the_fst ks) i
      then \<exists>j. 0 < j \<and> j < length cur \<and> active (cur ! j) \<and> IsFinal (the_fst ks) j \<and>
             (\<forall>i. 0 < i \<and> i < length cur \<and> active (cur ! i) \<and> IsFinal (the_fst ks) i
                  \<longrightarrow> \<not> score (cur ! j) < score (cur ! i)) \<and>
             confidence = expf fp (average_max_keyword_score (cur ! j)) \<and>
             keyword' = keyword (cur ! j) \<and>
             (legal \<longleftrightarrow> min_keyword_frames ks \<le> num_keyword_frames (cur ! j) \<and>
                        min_frames_for_last_state ks \<le> num_frames_of_current_state (cur ! j) \<and>
                        spot_threshold ks < confidence)
      else \<not> legal \<and> confidence = 0 \<and> keyword' = 0)"
proof -
  from assms obtain cur b where
    pr: "propagate fp ks am_score num = Inr cur"
    and best: "find_best (the_fst ks) cur = Inr b"
    and out: "decide fp ks cur b = (legal, confidence, keyword')"
    by (auto simp: Spot_def Let_def split: sum.splits if_splits)
  have inv: "final_inv (the_fst ks) cur {1..<length cur} b"
    using find_best_inv[OF best] by simp
  have range: "(\<exists>i \<in> {1..<length cur}. active (cur ! i) \<and> IsFinal (the_fst ks) i)
      \<longleftrightarrow> (\<exists>i. 0 < i \<and> i < length cur \<and> active (cur ! i) \<and> IsFinal (the_fst ks) i)"
    by (metis atLeastLessThan_iff less_eq_Suc_le One_nat_def)
  show ?thesis
  proof (cases "reach_final b")
    case True
    let ?j = "best_final_state b"
    have j: "0 < ?j" "?j < length cur" "active (cur ! ?j)" "IsFinal (the_fst ks) ?j"
      and mx: "\<forall>i. 0 < i \<and> i < length cur \<and> active (cur ! i) \<and> IsFinal (the_fst ks) i
                  \<longrightarrow> \<not> score (cur ! ?j) < score (cur ! i)"
      using inv True by (auto simp: final_inv_def)
    have ex: "\<exists>i. 0 < i \<and> i < length cur \<and> active (cur ! i) \<and> IsFinal (the_fst ks) i"
      using j by blast
    have d: "confidence = expf fp (average_max_keyword_score (cur ! ?j))"
      "keyword' = keyword (cur ! ?j)"
      "legal \<longleftrightarrow> min_keyword_frames ks \<le> num_keyword_frames (cur ! ?j) \<and>
                        min_frames_for_last_state ks \<le> num_frames_of_current_state (cur ! ?j) \<and>
                        spot_threshold ks < confidence"
      using out True by (auto simp: decide_def Let_def split: if_splits)
    show ?thesis
      using pr ex j mx d by (intro exI[of _ cur]) (simp only: if_True, blast)
  next
    case False
    then have "\<not> (\<exists>i \<in> {1..<length cur}. active (cur ! i) \<and> IsFinal (the_fst ks) i)"
      using inv unfolding final_inv_def by blast
    then have none: "\<not> (\<exists>i. 0 < i \<and> i < length cur \<and> active (cur ! i) \<and> IsFinal (the_fst ks) i)"
      unfolding range .
    have "\<not> legal \<and> confidence = 0 \<and> keyword' = 0"
      using out False by (simp add: decide_def)
    then show ?thesis using pr none by auto
  qed
qed

text \<open>
  The claim as the spec has it fails on the ring, whose start state is final. Two
  frames take the decoder round; state 0 is then active and final with the
  keyword 7, frame counts that meet both minima and a confidence \<open>exp 0 = 1\<close>
  above the threshold, so the claim has \<^verbatim>\<open>Spot\<close> return \<open>(True, 1, 7)\<close>. State 0
  is never tested for finality, and \<^verbatim>\<open>Spot\<close> returns \<open>(False, 0, 0)\<close>.
\<close>

theorem Spot_final_start_state_counterexample:
  "reachable real_ops ring_ks
   \<and> Spot real_ops ring_ks frame_phone2 3 = Inr (ring_ks1, (False, 0, 0))
   \<and> propagate real_ops ring_ks1 frame_phone3 3 = Inr [ring_tok0, Token_new]
   \<and> active ring_tok0 \<and> IsFinal (the_fst ring_ks1) 0
   \<and> expf real_ops (average_max_keyword_score ring_tok0) = 1
   \<and> keyword ring_tok0 = 7
   \<and> min_keyword_frames ring_ks1 \<le> num_keyword_frames ring_tok0
   \<and> min_frames_for_last_state ring_ks1 \<le> num_frames_of_current_state ring_tok0
   \<and> spot_threshold ring_ks1 < expf real_ops (average_max_keyword_score ring_tok0)
   \<and> Spot real_ops ring_ks1 frame_phone3 3 = Inr (ring_ks2, (False, 0, 0))"
proof -
  have 1: "Spot real_ops ring_ks frame_phone2 3 = Inr (ring_ks1, (False, 0, 0))"
    by (simp add: run_defs fst_ring_def ring_ks_def ring_ks1_def ring_tok1_def
        frame_phone2_def)
  have 2: "propagate real_ops ring_ks1 frame_phone3 3 = Inr [ring_tok0, Token_new]"
    by (simp add: run_defs fst_ring_def ring_ks_def ring_ks1_def ring_tok1_def ring_tok0_def
        frame_phone3_def)
  have 3: "Spot real_ops ring_ks1 frame_phone3 3 = Inr (ring_ks2, (False, 0, 0))"
    by (simp add: run_defs fst_ring_def ring_ks_def ring_ks1_def ring_ks2_def ring_tok1_def
        ring_tok0_def frame_phone3_def)
  show ?thesis
    using ring_ks_reachable 1 2 3
    by (simp add: ring_tok0_def ring_ks1_def ring_ks_def fst_ring_def real_ops_def)
qed

text \<open>The example two frames in: the final state 2 is reached with the keyword 7
  and the call reports a spot.\<close>

theorem Spot_decision_witness:
  "Spot real_ops (SetMinFramesForLastState demo_ks1 1) frame_phone3 3
     = Inr (demo_ks2, True, 1, 7)
   \<and> propagate real_ops (SetMinFramesForLastState demo_ks1 1) frame_phone3 3 = Inr demo_cur2
   \<and> active (demo_cur2 ! 2) \<and> IsFinal fst_demo 2
   \<and> expf real_ops (average_max_keyword_score (demo_cur2 ! 2)) = 1
   \<and> keyword (demo_cur2 ! 2) = 7
   \<and> num_keyword_frames (demo_cur2 ! 2) = 2
   \<and> num_frames_of_current_state (demo_cur2 ! 2) = 1"
proof -
  have p: "propagate real_ops (SetMinFramesForLastState demo_ks1 1) frame_phone3 3
      = Inr demo_cur2"
    by (simp add: run_defs fst_demo_def demo_ks_def demo_ks1_def frame_phone3_def
        SetMinFramesForLastState_def demo_cur2_def)
  have run: "Spot real_ops (SetMinFramesForLastState demo_ks1 1) frame_phone3 3
     = Inr (demo_ks2, True, 1, 7)"
    by (simp add: run_defs fst_demo_def demo_ks_def demo_ks1_def demo_ks2_def frame_phone3_def
        SetMinFramesForLastState_def demo_cur2_def)
  show ?thesis
    using p run Spot_decision[OF run]
    by (simp add: demo_cur2_def fst_demo_def real_ops_def)
qed

subsection \<open>The overflow guard\<close>

text \<open>
  Claim C3, amended. Every call of \<^verbatim>\<open>Spot\<close> that returns has incremented the frame
  counter. Whenever the state that its selection step reports as best is active,
  that state is a globally best-scoring active state, and the call has
  force-cleared the buffer that is now the previous one, state 0 included and not
  reactivated, exactly when the counter exceeds 60000, the value of
  \<^verbatim>\<open>kMaxTokenPassingFrames\<close> (\<open>100 * 60 * 10\<close>, ten minutes at 100 frames a
  second), and that state is filler-classified. The spec's ceiling of about
  600000 is ten times the code's. A call whose selection step reports the inactive
  state 0 (line 102 reads its score without testing \<open>active\<close>) is left out.
\<close>

theorem Spot_overflow_guard:
  fixes ks :: "'f::{zero,plus,times,inverse,preorder} KeywordSpot"
  assumes "reachable fp ks" and "Spot fp ks am_score num = Inr (ks', out)"
  shows "kMaxTokenPassingFrames = 60000 \<and> overflow_guard 60000 fp ks am_score num ks'"
proof -
  from assms(2) obtain cur b where
    pr: "propagate fp ks am_score num = Inr cur"
    and best: "find_best (the_fst ks) cur = Inr b"
    by (auto simp: Spot_def split: sum.splits)
  have ok: "buffers_ok ks" using assms(1) by (rule reachable_buffers_ok)
  have len: "length cur = length (prev_tokens ks)"
    using propagate_ok[OF pr ok] ok by (simp add: buffers_ok_def)
  have clear: "reset_first (length (prev_tokens ks)) cur = Inr (replicate (length cur) Token_new)"
    using len by (simp add: reset_first_def map_Token_Reset)
  have counter: "num_frames ks' = num_frames ks + 1"
    using assms(2) pr best
    by (auto simp: Spot_def Let_def split: if_splits sum.splits)
  have buffer: "prev_tokens ks' =
      (if 60000 < num_frames ks' \<and> is_filler (cur ! best_state b)
       then replicate (length cur) Token_new else cur)"
    using assms(2) pr best clear
    by (auto simp: Spot_def Let_def kMaxTokenPassingFrames_def split: if_splits)
  have g: "best_inv cur {1..<length cur} b"
    using find_best_inv[OF best] by simp
  have ne: "cur \<noteq> []"
    using best by (auto simp: find_best_def split: if_splits)
  have in_rng: "best_state b < length cur"
  proof (cases "best_state b = 0")
    case True
    then show ?thesis using ne by simp
  next
    case False
    then have "best_state b \<in> {1..<length cur}"
      using g by (auto simp: best_inv_def)
    then show ?thesis by simp
  qed
  have top: "\<not> score (cur ! best_state b) < score (cur ! i)"
    if "i < length cur" "active (cur ! i)" for i
  proof (cases "i = 0")
    case True
    then show ?thesis using g by (simp add: best_inv_def)
  next
    case False
    then have "i \<in> {1..<length cur}" using that(1) by simp
    then show ?thesis using g that(2) by (simp add: best_inv_def)
  qed
  have "overflow_guard 60000 fp ks am_score num ks'"
    unfolding overflow_guard_def using pr best counter buffer in_rng top by simp
  then show ?thesis by (simp add: kMaxTokenPassingFrames_def)
qed

text \<open>
  After 60000 filler frames state 0, the only state, is active and
  filler-classified; the counter reaches 60001 and the buffer is cleared, though
  60001 does not exceed 600000: with the spec's ceiling the claim fails.
\<close>

theorem Spot_overflow_guard_600000_counterexample:
  "Spot real_ops (loop_ks 60000) [1] 1
     = Inr ((loop_ks 60001)\<lparr>prev_tokens := [Token_new]\<rparr>, (False, 0, 0))
   \<and> propagate real_ops (loop_ks 60000) [1] 1 = Inr [Token_new\<lparr>active := True\<rparr>]
   \<and> \<not> overflow_guard 600000 real_ops (loop_ks 60000) [1] 1
         ((loop_ks 60001)\<lparr>prev_tokens := [Token_new]\<rparr>)"
proof -
  have "\<not> overflow_guard 600000 real_ops (loop_ks 60000) [1] 1
         ((loop_ks 60001)\<lparr>prev_tokens := [Token_new]\<rparr>)"
    by (simp add: overflow_guard_def loop_propagate loop_ks_fields loop_find_best)
      (simp add: Token_new_def)
  then show ?thesis using loop_Spot_60000 loop_propagate[of 60000] by simp
qed

theorem Spot_overflow_guard_witness:
  "reachable real_ops (loop_ks 60000)
   \<and> Spot real_ops (loop_ks 60000) [1] 1
     = Inr ((loop_ks 60001)\<lparr>prev_tokens := [Token_new]\<rparr>, (False, 0, 0))
   \<and> propagate real_ops (loop_ks 60000) [1] 1 = Inr [Token_new\<lparr>active := True\<rparr>]
   \<and> overflow_guard 60000 real_ops (loop_ks 60000) [1] 1
         ((loop_ks 60001)\<lparr>prev_tokens := [Token_new]\<rparr>)"
proof -
  have r: "reachable real_ops (loop_ks 60000)" by (rule loop_reachable) simp
  show ?thesis
    using r loop_Spot_60000 loop_propagate[of 60000]
      Spot_overflow_guard[OF r loop_Spot_60000]
    by blast
qed

subsection \<open>The divisor of the mean of the peaks\<close>

text \<open>
  Claim C7. In a decoder the program can be in, take any token \<open>prev\<close> of the
  previous-frame buffer and any update from it that wins and is not over a filler
  arc; let the update, if it is over a self-arc, have \<open>prev.num_keyword_states > 0\<close>.
  Then the \<^verbatim>\<open>CHECK\<close> of line 198 does not fire, and the token the update leaves
  has \<open>num_keyword_states\<close>, the divisor of lines 205 to 208, at least 1: a
  self-arc carries \<open>prev.num_keyword_states\<close> over, and a transition sets it to
  \<open>prev.num_keyword_states + 1\<close>, where \<open>prev.num_keyword_states\<close> is never
  negative. The update returns unless one of the three counters it increments
  stands at \<open>INT_MAX\<close>.
\<close>

theorem Update_divisor_positive:
  assumes "reachable fp ks" and "i < length (prev_tokens ks)"
    and "\<not> is_filler'"
    and "\<not> active self \<or> score self < score (prev_tokens ks ! i) + am_score"
    and "is_self_arc \<longrightarrow> 0 < num_keyword_states (prev_tokens ks ! i)"
  shows "Update fp self (prev_tokens ks ! i) olabel' is_self_arc is_filler' am_score
           \<noteq> Inl CheckFailed
       \<and> (\<forall>tok. Update fp self (prev_tokens ks ! i) olabel' is_self_arc is_filler' am_score
                   = Inr tok \<longrightarrow> 1 \<le> num_keyword_states tok)
       \<and> (num_keyword_frames (prev_tokens ks ! i) < INT_MAX
          \<and> num_frames_of_current_state (prev_tokens ks ! i) < INT_MAX
          \<and> num_keyword_states (prev_tokens ks ! i) < INT_MAX
          \<longrightarrow> (\<exists>tok. Update fp self (prev_tokens ks ! i) olabel' is_self_arc is_filler'
                         am_score = Inr tok))"
proof -
  have "tokens_ok (prev_tokens ks)"
    using reachable_buffers_ok[OF assms(1)] by (simp add: buffers_ok_def)
  then have nonneg: "0 \<le> num_keyword_states (prev_tokens ks ! i)"
    using assms(2) by (simp add: tokens_ok_def)
  show ?thesis
    using nonneg assms(3,4,5)
    by (auto simp: Update_def Update_keyword_def Let_def split: if_splits sum.splits)
qed

text \<open>The self-loop of state 1 of the example, one frame into the keyword.\<close>

theorem Update_divisor_positive_witness:
  "reachable real_ops demo_ks1 \<and> 1 < length (prev_tokens demo_ks1)
   \<and> 0 < num_keyword_states (prev_tokens demo_ks1 ! 1)
   \<and> Update real_ops Token_new (prev_tokens demo_ks1 ! 1) 0 True False 0
       = Inr (Token_new\<lparr>active := True, is_filler := False, num_keyword_frames := 2,
                num_frames_of_current_state := 2, num_keyword_states := 1\<rparr>)
   \<and> 1 \<le> num_keyword_states
        (Token_new\<lparr>active := True, is_filler := False, num_keyword_frames := 2,
                num_frames_of_current_state := 2, num_keyword_states := 1\<rparr> :: real Token)"
proof -
  have len: "1 < length (prev_tokens demo_ks1)" by (simp add: demo_ks1_def)
  have pos: "0 < num_keyword_states (prev_tokens demo_ks1 ! 1)"
    by (simp add: demo_ks1_def)
  have run: "Update real_ops Token_new (prev_tokens demo_ks1 ! 1) 0 True False 0
      = Inr (Token_new\<lparr>active := True, is_filler := False, num_keyword_frames := 2,
                num_frames_of_current_state := 2, num_keyword_states := 1\<rparr>)"
    by (simp add: run_defs demo_ks1_def)
  show ?thesis
    using demo_ks1_reachable len pos run
      Update_divisor_positive[OF demo_ks1_reachable len, of False Token_new 0 True 0]
    by (simp add: Token_new_def)
qed

end
